(* ===== verification/Prelude.thy ===== *)
theory Prelude
  imports Main "HOL-Library.Word"
begin

text \<open>
  The prelude: machine-integer types under the names the Rust code uses, the outcomes
  that end an execution (\<open>err\<close>), results as \<open>err + 'a\<close> with a bind and a fold, Rust's
  integer arithmetic with its overflow checks, pointer offsets, and the word lemmas
  on alignment that several components share.
\<close>

unbundle bit_operations_syntax

named_theorems res_simps \<open>evaluation of binds, guards and folds over results\<close>
named_theorems arith_simps \<open>checked machine arithmetic whose check is known to pass\<close>


section \<open>Types and outcomes\<close>

type_synonym u64 = "64 word"
type_synonym i64 = "64 word"
type_synonym i32 = "32 word"
type_synonym i16 = "16 word"
type_synonym u8 = "8 word"

text \<open>
  How an execution can end without a value: an access to unmapped memory, a pointer
  offset outside what \<open>pointer::offset\<close> allows, a write or read outside a \<open>Vec\<close>
  allocation or to one already freed, a recursion deeper than the stack, and the panics
  of the code and of its arithmetic.
\<close>

datatype err =
    Segv
  | Ptr_overflow
  | Bad_buffer
  | Assert_failed
  | Overflow
  | Div_zero
  | Unwrap_failed
  | Unimplemented
  | Stack_overflow
  | Panicked

type_synonym 'a res = "err + 'a"

abbreviation Ok :: "'a \<Rightarrow> 'a res" where
  "Ok x \<equiv> Inr x"

abbreviation Err :: "err \<Rightarrow> 'a res" where
  "Err e \<equiv> Inl e"

definition bindR :: "'a res \<Rightarrow> ('a \<Rightarrow> 'b res) \<Rightarrow> 'b res" where
  "bindR r f = (case r of Inl e \<Rightarrow> Inl e | Inr x \<Rightarrow> f x)"

definition guardR :: "err \<Rightarrow> bool \<Rightarrow> unit res" where
  "guardR e b = (if b then Ok () else Err e)"

definition of_option :: "err \<Rightarrow> 'a option \<Rightarrow> 'a res" where
  "of_option e x = (case x of None \<Rightarrow> Err e | Some y \<Rightarrow> Ok y)"

fun foldR :: "('a \<Rightarrow> 's \<Rightarrow> 's res) \<Rightarrow> 'a list \<Rightarrow> 's \<Rightarrow> 's res" where
  "foldR f [] s = Ok s"
| "foldR f (x # xs) s = bindR (f x s) (foldR f xs)"

lemma bindR_Ok [simp, res_simps]: "bindR (Ok x) f = f x"
  by (simp add: bindR_def)

lemma bindR_Err [simp, res_simps]: "bindR (Err e) f = Err e"
  by (simp add: bindR_def)

lemma bindR_eq_Ok: "bindR r f = Ok y \<longleftrightarrow> (\<exists>x. r = Ok x \<and> f x = Ok y)"
  by (cases r) auto

lemma bindR_eq_Err: "bindR r f = Err e \<longleftrightarrow> r = Err e \<or> (\<exists>x. r = Ok x \<and> f x = Err e)"
  by (cases r) auto

lemma bindR_OkE [elim!]:
  assumes "bindR r f = Ok y"
  obtains x where "r = Ok x" "f x = Ok y"
  using assms by (auto simp: bindR_eq_Ok)

lemma bindR_assoc: "bindR (bindR r f) g = bindR r (\<lambda>x. bindR (f x) g)"
  by (cases r) auto

lemma bindR_return [simp]: "bindR r (\<lambda>x. Ok x) = r"
  by (cases r) auto

lemma bindR_cong [fundef_cong]:
  "r = r' \<Longrightarrow> (\<And>x. r' = Ok x \<Longrightarrow> f x = f' x) \<Longrightarrow> bindR r f = bindR r' f'"
  by (cases r') auto

lemma guardR_True [simp, res_simps]: "guardR e True = Ok ()"
  by (simp add: guardR_def)

lemma guardR_False [simp, res_simps]: "guardR e False = Err e"
  by (simp add: guardR_def)

lemma guardR_eq_Ok [simp]: "guardR e b = Ok u \<longleftrightarrow> b"
  by (auto simp: guardR_def)

lemma of_option_simps [simp, res_simps]:
  "of_option e None = Err e" "of_option e (Some y) = Ok y"
  by (simp_all add: of_option_def)

lemma of_option_eq_Ok [simp]: "of_option e x = Ok y \<longleftrightarrow> x = Some y"
  by (cases x) auto

lemma foldR_append: "foldR f (xs @ ys) s = bindR (foldR f xs s) (foldR f ys)"
  by (induction xs arbitrary: s) (auto simp: bindR_assoc intro!: bindR_cong)

lemma foldR_map: "foldR f (map g xs) s = foldR (\<lambda>x. f (g x)) xs s"
  by (induction xs arbitrary: s) (auto intro: bindR_cong)

text \<open>A step that does nothing on the elements outside a filter can skip them.\<close>

lemma foldR_filter:
  assumes "\<And>x s. x \<in> set xs \<Longrightarrow> \<not> P x \<Longrightarrow> f x s = Ok s"
  shows "foldR f xs s = foldR f (filter P xs) s"
  using assms
proof (induction xs arbitrary: s)
  case Nil
  then show ?case by simp
next
  case (Cons x xs)
  have "foldR f xs s' = foldR f (filter P xs) s'" for s'
    by (rule Cons.IH) (use Cons.prems in auto)
  then show ?case
    using Cons.prems by (cases "P x") (auto intro: bindR_cong)
qed

text \<open>An invariant of every step is an invariant of the fold.\<close>

lemma foldR_invariant:
  assumes "foldR f xs s = Ok s'" "P s"
    and "\<And>x t t'. x \<in> set xs \<Longrightarrow> P t \<Longrightarrow> f x t = Ok t' \<Longrightarrow> P t'"
  shows "P s'"
  using assms
proof (induction xs arbitrary: s)
  case Nil
  then show ?case by simp
next
  case (Cons x xs)
  from Cons.prems(1) obtain t where t: "f x s = Ok t" "foldR f xs t = Ok s'"
    by auto
  have "P t" using Cons.prems(2,3) t(1) by (meson list.set_intros(1))
  with t(2) show ?case
    by (rule Cons.IH) (use Cons.prems(3) in auto)
qed

text \<open>Steps that agree wherever an invariant holds give the same fold.\<close>

lemma foldR_cong_inv:
  assumes "I s" "\<And>x t. x \<in> set xs \<Longrightarrow> I t \<Longrightarrow> f x t = g x t"
    and "\<And>x t t'. x \<in> set xs \<Longrightarrow> I t \<Longrightarrow> g x t = Ok t' \<Longrightarrow> I t'"
  shows "foldR f xs s = foldR g xs s"
  using assms
proof (induction xs arbitrary: s)
  case (Cons x xs)
  have "foldR f xs t = foldR g xs t" if "g x s = Ok t" for t
  proof (rule Cons.IH)
    show "I t" by (rule Cons.prems(3) [of x s t]) (use Cons.prems(1) that in auto)
  qed (use Cons.prems(2,3) in \<open>blast intro: list.set_intros\<close>)+
  then have "bindR (g x s) (foldR f xs) = bindR (g x s) (foldR g xs)"
    by (intro bindR_cong) auto
  then show ?case using Cons.prems(1,2) by simp
qed simp

text \<open>A fold whose steps always succeed is an ordinary fold.\<close>

lemma foldR_fold:
  assumes "\<And>x s. x \<in> set xs \<Longrightarrow> f x s = Ok (g x s)"
  shows "foldR f xs s = Ok (fold g xs s)"
  using assms by (induction xs arbitrary: s) auto


section \<open>Rust's integer arithmetic\<close>

text \<open>
  With overflow checks on (the profile that also enables \<open>debug_assert!\<close>) an overflow
  panics; without them it wraps. Division by zero panics in both.
\<close>

definition add_u :: "bool \<Rightarrow> u64 \<Rightarrow> u64 \<Rightarrow> u64 res" where
  "add_u dbg a b = (if dbg \<and> 2 ^ 64 \<le> unat a + unat b then Err Overflow else Ok (a + b))"

definition sub_u :: "bool \<Rightarrow> u64 \<Rightarrow> u64 \<Rightarrow> u64 res" where
  "sub_u dbg a b = (if dbg \<and> unat a < unat b then Err Overflow else Ok (a - b))"

definition mul_u :: "bool \<Rightarrow> u64 \<Rightarrow> u64 \<Rightarrow> u64 res" where
  "mul_u dbg a b = (if dbg \<and> 2 ^ 64 \<le> unat a * unat b then Err Overflow else Ok (a * b))"

definition div_u :: "u64 \<Rightarrow> u64 \<Rightarrow> u64 res" where
  "div_u a b = (if b = 0 then Err Div_zero else Ok (a div b))"

lemma add_u_Ok [simp, arith_simps]: "unat a + unat b < 2 ^ 64 \<Longrightarrow> add_u dbg a b = Ok (a + b)"
  by (simp add: add_u_def)

lemma sub_u_Ok [simp, arith_simps]: "unat b \<le> unat a \<Longrightarrow> sub_u dbg a b = Ok (a - b)"
  by (simp add: sub_u_def)

lemma mul_u_Ok [simp, arith_simps]: "unat a * unat b < 2 ^ 64 \<Longrightarrow> mul_u dbg a b = Ok (a * b)"
  by (simp add: mul_u_def)

lemma div_u_Ok [simp, arith_simps]: "b \<noteq> 0 \<Longrightarrow> div_u a b = Ok (a div b)"
  by (simp add: div_u_def)

lemma release_wraps [simp, arith_simps]:
  "add_u False a b = Ok (a + b)" "sub_u False a b = Ok (a - b)" "mul_u False a b = Ok (a * b)"
  by (simp_all add: add_u_def sub_u_def mul_u_def)

lemma add_u_eq_Ok: "add_u dbg a b = Ok r \<Longrightarrow> r = a + b"
  by (auto simp: add_u_def split: if_splits)

lemma unat_of_nat64 [simp]: "n < 2 ^ 64 \<Longrightarrow> unat (of_nat n :: u64) = n"
  by (simp add: unsigned_of_nat take_bit_nat_eq_self)

lemma unat_exp64 [simp]: "k < 64 \<Longrightarrow> unat (2 ^ k :: u64) = 2 ^ k"
  using unat_of_nat64 [of "2 ^ k"] power_strict_increasing [of k 64 "2 :: nat"] by simp

text \<open>
  \<open>pointer::offset\<close> on a pointer to 8-byte elements: the byte offset fits an \<open>isize\<close> and
  the result does not wrap around the address space, or the behaviour is undefined.
\<close>

definition ptr_offset :: "u64 \<Rightarrow> int \<Rightarrow> u64 res" where
  "ptr_offset p i =
     (if - (2 ^ 63) \<le> 8 * i \<and> 8 * i < 2 ^ 63 \<and> 0 \<le> uint p + 8 * i \<and> uint p + 8 * i < 2 ^ 64
      then Ok (p + 8 * word_of_int i) else Err Ptr_overflow)"

lemma ptr_offset_eq_Ok: "ptr_offset p i = Ok q \<Longrightarrow> q = p + 8 * word_of_int i \<and> i < 2 ^ 60"
  by (auto simp: ptr_offset_def split: if_splits)

lemma ptr_offset_nat:
  assumes "unat p + 8 * n < 2 ^ 64" "n < 2 ^ 60"
  shows "ptr_offset p (int n) = Ok (p + 8 * of_nat n)"
proof -
  have "uint p + 8 * int n < 2 ^ 64"
    using assms(1) by (metis (mono_tags, opaque_lifting) of_nat_add of_nat_less_numeral_power_cancel_iff
        of_nat_mult of_nat_numeral uint_nat)
  with assms(2) show ?thesis by (simp add: ptr_offset_def)
qed


section \<open>Sources\<close>

text \<open>
  A source hands out what it holds one at a time and then \<open>None\<close>: the interface of an
  iterator's \<open>next\<close> and of a stack's \<open>pop\<close>. \<open>pull nxt n s\<close> are the answers of \<open>n\<close> calls.
\<close>

fun pull :: "('s \<Rightarrow> 'a option \<times> 's) \<Rightarrow> nat \<Rightarrow> 's \<Rightarrow> 'a option list" where
  "pull nxt 0 s = []"
| "pull nxt (Suc n) s = (case nxt s of (x, s') \<Rightarrow> x # pull nxt n s')"

locale source =
  fixes nxt :: "'s \<Rightarrow> 'a option \<times> 's" and items :: "'s \<Rightarrow> 'a list"
  assumes next_empty: "items s = [] \<Longrightarrow> nxt s = (None, s)"
    and next_item: "items s = x # xs \<Longrightarrow> \<exists>s'. nxt s = (Some x, s') \<and> items s' = xs"
begin

lemma pull_empty: "items s = [] \<Longrightarrow> pull nxt n s = replicate n None"
  by (induction n) (simp_all add: next_empty)

lemma pull_all: "pull nxt (length (items s) + n) s = map Some (items s) @ replicate n None"
proof (induction "items s" arbitrary: s)
  case Nil
  then show ?case using pull_empty [of s n] by simp
next
  case (Cons x xs)
  then obtain s' where s': "nxt s = (Some x, s')" "items s' = xs" using next_item [of s x xs] by auto
  with Cons.hyps(1) [of s'] Cons.hyps(2) show ?case by (simp flip: Cons.hyps(2))
qed

end


section \<open>Transition systems\<close>

text \<open>What a step relation keeps holds in every state that its runs reach.\<close>

locale inductive_invariant =
  fixes init :: 's and step :: "'s \<Rightarrow> 's \<Rightarrow> bool" and inv :: "'s \<Rightarrow> bool"
  assumes inv_init: "inv init"
    and inv_step: "step s s' \<Longrightarrow> inv s \<Longrightarrow> inv s'"
begin

lemma inv_steps: "step\<^sup>*\<^sup>* s s' \<Longrightarrow> inv s \<Longrightarrow> inv s'"
  by (induction rule: rtranclp_induct) (auto intro: inv_step)

lemma inv_reached: "step\<^sup>*\<^sup>* init s \<Longrightarrow> inv s"
  using inv_steps inv_init by blast

end

text \<open>A property that is not invariant but, once it holds, stays.\<close>

locale stable_property = inductive_invariant +
  fixes P :: "'s \<Rightarrow> bool"
  assumes P_step: "step s s' \<Longrightarrow> inv s \<Longrightarrow> P s \<Longrightarrow> P s'"
begin

lemma stays: "step\<^sup>*\<^sup>* s s' \<Longrightarrow> inv s \<Longrightarrow> P s \<Longrightarrow> P s'"
  by (induction rule: rtranclp_induct) (auto intro: P_step inv_steps)

end


text \<open>
  A specification with steps of its own: each step of the implementation is one of them, or
  does not show in the abstract state.
\<close>

locale refinement_mapping = inductive_invariant +
  fixes abs :: "'a \<Rightarrow> 'v" and spec_step :: "'v \<Rightarrow> 'v \<Rightarrow> bool" and spec_init :: 'v
  assumes abs_init: "abs init = spec_init"
    and abs_step: "step s s' \<Longrightarrow> inv s \<Longrightarrow> abs s' = abs s \<or> spec_step (abs s) (abs s')"
begin

lemma abs_steps: "step\<^sup>*\<^sup>* s s' \<Longrightarrow> inv s \<Longrightarrow> spec_step\<^sup>*\<^sup>* (abs s) (abs s')"
proof (induction rule: rtranclp_induct)
  case (step s1 s2)
  then show ?case
    using abs_step [OF step.hyps(2) inv_steps [OF step.hyps(1) step.prems]]
    by (auto intro: rtranclp.rtrancl_into_rtrancl)
qed simp

lemma abs_reached: "step\<^sup>*\<^sup>* init s \<Longrightarrow> spec_step\<^sup>*\<^sup>* spec_init (abs s)"
  using abs_steps inv_init abs_init by metis

lemma transfer: "step\<^sup>*\<^sup>* init s \<Longrightarrow> (\<And>v. spec_step\<^sup>*\<^sup>* spec_init v \<Longrightarrow> P v) \<Longrightarrow> P (abs s)"
  using abs_reached by blast

end


section \<open>Refinement of deterministic steps\<close>

text \<open>
  \<open>refines I H J K f g\<close>: seen through \<open>H\<close> before and \<open>K\<close> after it, the step \<open>f\<close> is \<open>g\<close>, errors
  included, wherever the invariant \<open>I\<close> holds; and \<open>J\<close> holds after it. One rule per way to
  compose steps.
\<close>

definition mapR :: "('a \<Rightarrow> 'b) \<Rightarrow> 'a res \<Rightarrow> 'b res" where
  "mapR K r = bindR r (\<lambda>x. Ok (K x))"

lemma mapR_simps [simp]: "mapR K (Ok x) = Ok (K x)" "mapR K (Err e) = Err e"
  by (simp_all add: mapR_def)

lemma mapR_bindR: "mapR K (bindR r f) = bindR r (\<lambda>x. mapR K (f x))"
  by (cases r) simp_all

definition refines ::
    "('s \<Rightarrow> bool) \<Rightarrow> ('s \<Rightarrow> 'a) \<Rightarrow> ('t \<Rightarrow> bool) \<Rightarrow> ('t \<Rightarrow> 'b) \<Rightarrow> ('s \<Rightarrow> 't res) \<Rightarrow> ('a \<Rightarrow> 'b res) \<Rightarrow> bool" where
  "refines I H J K f g \<longleftrightarrow> (\<forall>s. I s \<longrightarrow> g (H s) = mapR K (f s) \<and> (\<forall>t. f s = Ok t \<longrightarrow> J t))"

named_theorems refine \<open>rules for composed steps\<close>

lemma refinesI:
  "(\<And>s. I s \<Longrightarrow> g (H s) = mapR K (f s)) \<Longrightarrow> (\<And>s t. I s \<Longrightarrow> f s = Ok t \<Longrightarrow> J t) \<Longrightarrow> refines I H J K f g"
  by (simp add: refines_def)

lemma refines_eq: "refines I H J K f g \<Longrightarrow> I s \<Longrightarrow> g (H s) = mapR K (f s)"
  by (simp add: refines_def)

lemma refines_inv: "refines I H J K f g \<Longrightarrow> I s \<Longrightarrow> f s = Ok t \<Longrightarrow> J t"
  by (simp add: refines_def)

lemma refines_return [refine]: "(\<And>s. I s \<Longrightarrow> J (u s) \<and> v (H s) = K (u s)) \<Longrightarrow> refines I H J K (\<lambda>s. Ok (u s)) (\<lambda>a. Ok (v a))"
  by (simp add: refines_def)

lemma refines_fail [refine]: "refines I H J K (\<lambda>s. Err e) (\<lambda>a. Err e)"
  by (simp add: refines_def)

lemma refines_bind:
  assumes "refines I H J K f g" "refines J K L M f' g'"
  shows "refines I H L M (\<lambda>s. bindR (f s) f') (\<lambda>a. bindR (g a) g')"
proof (rule refinesI)
  fix s assume "I s"
  then show "bindR (g (H s)) g' = mapR M (bindR (f s) f')"
    using assms by (cases "f s") (simp_all add: refines_def)
next
  fix s t assume "I s" "bindR (f s) f' = Ok t"
  then show "L t" using assms by (auto simp: refines_def)
qed

text \<open>A step that first reads something of the state which the abstraction keeps.\<close>

lemma refines_read:
  assumes "\<And>s. I s \<Longrightarrow> r' (H s) = r s" "\<And>x. refines I H J K (f x) (g x)"
  shows "refines I H J K (\<lambda>s. bindR (r s) (\<lambda>x. f x s)) (\<lambda>a. bindR (r' a) (\<lambda>x. g x a))"
proof (rule refinesI)
  fix s assume "I s"
  then show "bindR (r' (H s)) (\<lambda>x. g x (H s)) = mapR K (bindR (r s) (\<lambda>x. f x s))"
    using assms by (cases "r s") (simp_all add: refines_def)
next
  fix s t assume "I s" "bindR (r s) (\<lambda>x. f x s) = Ok t"
  then show "J t" using assms(2) by (auto simp: refines_def)
qed

lemma refines_if:
  assumes "\<And>s. I s \<Longrightarrow> b' (H s) = b s" "refines I H J K f g" "refines I H J K f' g'"
  shows "refines I H J K (\<lambda>s. if b s then f s else f' s) (\<lambda>a. if b' a then g a else g' a)"
  using assms by (auto simp: refines_def)

lemma refines_foldR [refine]:
  assumes "\<And>x. x \<in> set xs \<Longrightarrow> refines I H I H (f x) (g x)"
  shows "refines I H I H (foldR f xs) (foldR g xs)"
  using assms
proof (induction xs)
  case Nil
  then show ?case by (simp add: refines_def)
next
  case (Cons x xs)
  have "refines I H I H (\<lambda>s. bindR (f x s) (foldR f xs)) (\<lambda>a. bindR (g x a) (foldR g xs))"
    by (rule refines_bind) (use Cons in auto)
  then show ?case by (simp add: refines_def)
qed

end
