(* ===== verification/Memory.thy ===== *)
theory Memory
  imports Prelude
begin

text \<open>
  The address space: a partial, byte-addressed store over 64-bit addresses (an unmapped
  byte is \<open>None\<close>, and touching it is \<open>Segv\<close>), with the little-endian loads and stores
  of the widths the code uses and \<open>ptr::copy_nonoverlapping\<close>. The locale
  \<open>word_store\<close> states what the rest of the development relies on (a load after a
  store at the same and at a separate address); it is interpreted on the byte store.
\<close>

named_theorems mem_simps \<open>loads after stores\<close>


section \<open>Bytes and words\<close>

fun bytes_of :: "nat \<Rightarrow> 'a::len word \<Rightarrow> u8 list" where
  "bytes_of 0 w = []"
| "bytes_of (Suc n) w = ucast w # bytes_of n (drop_bit 8 w)"

fun of_bytes :: "u8 list \<Rightarrow> 'a::len word" where
  "of_bytes [] = 0"
| "of_bytes (b # bs) = ucast b OR push_bit 8 (of_bytes bs)"

lemma length_bytes_of [simp]: "length (bytes_of n w) = n"
  by (induction n arbitrary: w) auto

lemma take_bit_Suc8: "take_bit (8 + k) w = take_bit 8 w OR push_bit 8 (take_bit k (drop_bit 8 w))"
  for w :: "'a::len word"
  by (rule bit_word_eqI) (auto simp: bit_simps)

lemma of_bytes_bytes_of: "of_bytes (bytes_of n w) = take_bit (8 * n) (w :: 'a::len word)"
proof (induction n arbitrary: w)
  case 0
  then show ?case by simp
next
  case (Suc n)
  have "ucast (ucast w :: u8) = take_bit 8 w"
    by (rule bit_word_eqI) (auto simp: bit_simps)
  then show ?case
    using take_bit_Suc8 [of "8 * n" w] by (simp add: Suc)
qed

lemma of_bytes_bytes_of_full [simp]:
  "of_bytes (bytes_of 8 w) = (w :: u64)" "of_bytes (bytes_of 4 v) = (v :: i32)"
  by (simp_all add: of_bytes_bytes_of take_bit_word_eq_self)


section \<open>The byte store\<close>

type_synonym mem = "u64 \<rightharpoonup> u8"

fun load_bytes :: "mem \<Rightarrow> u64 \<Rightarrow> nat \<Rightarrow> u8 list option" where
  "load_bytes m a 0 = Some []"
| "load_bytes m a (Suc n) =
     (case m a of None \<Rightarrow> None | Some b \<Rightarrow> map_option ((#) b) (load_bytes m (a + 1) n))"

fun store_bytes :: "mem \<Rightarrow> u64 \<Rightarrow> u8 list \<Rightarrow> mem option" where
  "store_bytes m a [] = Some m"
| "store_bytes m a (b # bs) =
     (case m a of None \<Rightarrow> None | Some _ \<Rightarrow> store_bytes (m(a \<mapsto> b)) (a + 1) bs)"

definition load64 :: "mem \<Rightarrow> u64 \<Rightarrow> u64 res" where
  "load64 m a = of_option Segv (map_option of_bytes (load_bytes m a 8))"

definition load32 :: "mem \<Rightarrow> u64 \<Rightarrow> i32 res" where
  "load32 m a = of_option Segv (map_option of_bytes (load_bytes m a 4))"

definition load16 :: "mem \<Rightarrow> u64 \<Rightarrow> i16 res" where
  "load16 m a = of_option Segv (map_option of_bytes (load_bytes m a 2))"

definition store64 :: "mem \<Rightarrow> u64 \<Rightarrow> u64 \<Rightarrow> mem res" where
  "store64 m a w = of_option Segv (store_bytes m a (bytes_of 8 w))"

definition store32 :: "mem \<Rightarrow> u64 \<Rightarrow> i32 \<Rightarrow> mem res" where
  "store32 m a w = of_option Segv (store_bytes m a (bytes_of 4 w))"

text \<open>Two ranges \<open>[a, a + n)\<close> and \<open>[b, b + k)\<close> of the address space do not meet.\<close>

definition apart :: "u64 \<Rightarrow> nat \<Rightarrow> u64 \<Rightarrow> nat \<Rightarrow> bool" where
  "apart a n b k \<longleftrightarrow> n \<le> unat (b - a) \<and> k \<le> unat (a - b)"

text \<open>\<open>ptr::copy_nonoverlapping::<u8>\<close>: overlapping ranges are undefined behaviour.\<close>

definition copy_nonoverlapping :: "mem \<Rightarrow> u64 \<Rightarrow> u64 \<Rightarrow> nat \<Rightarrow> mem res" where
  "copy_nonoverlapping m src dst n =
     (if 0 < n \<and> \<not> apart src n dst n then Err Ptr_overflow
      else bindR (of_option Segv (load_bytes m src n)) (\<lambda>bs.
             of_option Segv (store_bytes m dst bs)))"

lemma load_bytes_eq_Some:
  "load_bytes m a n = Some bs \<longleftrightarrow>
     length bs = n \<and> (\<forall>i<n. m (a + of_nat i) = Some (bs ! i))"
proof (induction n arbitrary: a bs)
  case 0
  then show ?case by auto
next
  case (Suc n)
  show ?case
  proof (cases bs)
    case Nil
    then show ?thesis by (auto split: option.splits)
  next
    case (Cons b bs')
    have "load_bytes m a (Suc n) = Some bs \<longleftrightarrow> m a = Some b \<and> load_bytes m (a + 1) n = Some bs'"
      by (auto simp: Cons split: option.splits)
    also have "\<dots> \<longleftrightarrow> length bs = Suc n \<and> (\<forall>i<Suc n. m (a + of_nat i) = Some (bs ! i))"
      unfolding Suc All_less_Suc2 by (auto simp: Cons add.assoc)
    finally show ?thesis .
  qed
qed

lemma unat_succ_diff:
  assumes "x \<noteq> (a :: u64)"
  shows "unat (x - a) = Suc (unat (x - (a + 1)))"
proof -
  have "x - (a + 1) = (x - a) - 1" by simp
  moreover have "x - a \<noteq> 0" using assms by simp
  ultimately show ?thesis
    by (metis Suc_pred' unat_eq_zero unat_minus_one zero_less_iff_neq_zero)
qed

lemma unat_minus_one_self: "unat (a - (a + 1) :: u64) = 2 ^ 64 - 1"
proof -
  have "a - (a + 1) = (- 1 :: u64)" by simp
  then show ?thesis by (simp add: unsigned_minus_1_eq_mask mask_eq_exp_minus_1)
qed

lemma store_bytes_apply:
  assumes "store_bytes m a bs = Some m'" "length bs < 2 ^ 64"
  shows "m' x = (if unat (x - a) < length bs then Some (bs ! unat (x - a)) else m x)"
  using assms
proof (induction bs arbitrary: m a)
  case Nil
  then show ?case by simp
next
  case (Cons b bs)
  from Cons.prems(1) have st: "store_bytes (m(a \<mapsto> b)) (a + 1) bs = Some m'"
    by (auto split: option.splits)
  have m': "m' x = (if unat (x - (a + 1)) < length bs then Some (bs ! unat (x - (a + 1)))
      else (m(a \<mapsto> b)) x)"
    by (rule Cons.IH [OF st]) (use Cons.prems(2) in simp)
  show ?case
  proof (cases "x = a")
    case True
    show ?thesis unfolding m' using True Cons.prems(2) unat_minus_one_self [of a] by simp
  next
    case False
    then show ?thesis by (simp add: m' unat_succ_diff)
  qed
qed

lemma store_bytes_Some_iff:
  assumes "length bs < 2 ^ 64"
  shows "(\<exists>m'. store_bytes m a bs = Some m') \<longleftrightarrow> (\<exists>cs. load_bytes m a (length bs) = Some cs)"
  using assms
proof (induction bs arbitrary: m a)
  case Nil
  then show ?case by simp
next
  case (Cons b bs)
  have same: "load_bytes (m(a \<mapsto> b)) (a + 1) (length bs) = load_bytes m (a + 1) (length bs)"
  proof (rule option.expand)
    have ne: "a + 1 + of_nat i \<noteq> a" if "i < length bs" for i
    proof
      assume "a + 1 + of_nat i = a"
      then have "(of_nat (Suc i) :: u64) = 0" by (simp add: algebra_simps)
      moreover have "unat (of_nat (Suc i) :: u64) = Suc i"
        using that Cons.prems by (intro unat_of_nat64) auto
      ultimately show False by simp
    qed
    have "load_bytes (m(a \<mapsto> b)) (a + 1) (length bs) = Some cs \<longleftrightarrow>
          load_bytes m (a + 1) (length bs) = Some cs" for cs
      unfolding load_bytes_eq_Some using ne by auto
    then show "(load_bytes (m(a \<mapsto> b)) (a + 1) (length bs) = None) =
        (load_bytes m (a + 1) (length bs) = None)"
      and "\<lbrakk>load_bytes (m(a \<mapsto> b)) (a + 1) (length bs) \<noteq> None;
          load_bytes m (a + 1) (length bs) \<noteq> None\<rbrakk>
        \<Longrightarrow> the (load_bytes (m(a \<mapsto> b)) (a + 1) (length bs)) = the (load_bytes m (a + 1) (length bs))"
      by (metis not_Some_eq)+
  qed
  have "(\<exists>m'. store_bytes (m(a \<mapsto> b)) (a + 1) bs = Some m') \<longleftrightarrow>
      (\<exists>cs. load_bytes (m(a \<mapsto> b)) (a + 1) (length bs) = Some cs)"
    by (rule Cons.IH) (use Cons.prems in simp)
  with same show ?case by (auto split: option.splits)
qed


section \<open>Laws of loads and stores\<close>

lemma apart_sym: "apart a n b k \<longleftrightarrow> apart b k a n"
  by (auto simp: apart_def)

lemma apart_elem:
  assumes "apart a n b k" "j < k"
  shows "n \<le> unat (b + of_nat j - a)"
proof (rule ccontr)
  assume "\<not> n \<le> unat (b + of_nat j - a)"
  define d where "d = b + of_nat j - a"
  have d: "unat d < n" "n \<le> unat (b - a)" "k \<le> unat (a - b)"
    using \<open>\<not> _\<close> assms(1) by (auto simp: d_def apart_def)
  have "k < 2 ^ 64" using d(3) unsigned_less [of "a - b", where ?'a = nat] by simp
  then have j: "unat (of_nat j :: u64) = j" using assms(2) by (intro unat_of_nat64) simp
  show False
  proof (cases "unat d < j")
    case True
    then have "d \<le> of_nat j" by (simp add: word_le_nat_alt j)
    then have "unat (of_nat j - d) = j - unat d" by (simp add: unat_sub j)
    moreover have "of_nat j - d = a - b" by (simp add: d_def)
    ultimately show False using d(3) assms(2) by simp
  next
    case False
    then have "of_nat j \<le> d" by (simp add: word_le_nat_alt j)
    then have "unat (d - of_nat j) = unat d - j" by (simp add: unat_sub j)
    moreover have "d - of_nat j = b - a" by (simp add: d_def)
    ultimately show False using d(1,2) by simp
  qed
qed

lemma apart_distance:
  assumes "0 < n" "n \<le> j" "j + k \<le> 2 ^ 64" "0 < k"
  shows "apart a n (a + of_nat j) k"
proof -
  have "of_nat j + of_nat (2 ^ 64 - j) = (of_nat (2 ^ 64) :: u64)"
    unfolding of_nat_add [symmetric] using assms(3) by simp
  also have "\<dots> = 0" by (simp add: word_of_nat_eq_0_iff)
  finally have "- of_nat j = (of_nat (2 ^ 64 - j) :: u64)" by (rule minus_unique)
  then have "a - (a + of_nat j) = of_nat (2 ^ 64 - j)"
    unfolding diff_add_eq_diff_diff_swap by simp
  then have "unat (a - (a + of_nat j)) = 2 ^ 64 - j"
    using assms(1,2) unat_of_nat64 [of "2 ^ 64 - j"] by simp
  moreover have "unat (of_nat j :: u64) = j" using assms(3,4) by (intro unat_of_nat64) simp
  ultimately show ?thesis using assms by (simp add: apart_def)
qed

lemma load_bytes_store_apart:
  assumes "store_bytes m a bs = Some m'" "length bs < 2 ^ 64" "apart a (length bs) b k"
  shows "load_bytes m' b k = load_bytes m b k"
proof -
  have "m' (b + of_nat j) = m (b + of_nat j)" if "j < k" for j
    using store_bytes_apply [OF assms(1,2)] apart_elem [OF assms(3) that] by auto
  then have "load_bytes m' b k = Some cs \<longleftrightarrow> load_bytes m b k = Some cs" for cs
    unfolding load_bytes_eq_Some by auto
  then show ?thesis by (metis not_Some_eq)
qed

lemma load_bytes_store_same:
  assumes "store_bytes m a bs = Some m'" "length bs < 2 ^ 64"
  shows "load_bytes m' a (length bs) = Some bs"
  unfolding load_bytes_eq_Some
  using store_bytes_apply [OF assms] assms(2) by auto

lemma store_bytes_dom: "store_bytes m a bs = Some m' \<Longrightarrow> dom m' = dom m"
proof (induction bs arbitrary: m a)
  case Nil
  then show ?case by simp
next
  case (Cons b bs)
  then obtain c where c: "m a = Some c" "store_bytes (m(a \<mapsto> b)) (a + 1) bs = Some m'"
    by (auto split: option.splits)
  then have "dom m' = dom (m(a \<mapsto> b))" by (intro Cons.IH)
  also have "\<dots> = dom m" using c(1) by auto
  finally show ?case .
qed

lemma load64_total_store:
  assumes "load64 m a = Ok v"
  shows "\<exists>m'. store64 m a w = Ok m'"
proof -
  have "\<exists>cs. load_bytes m a (length (bytes_of 8 w)) = Some cs"
    using assms by (auto simp: load64_def)
  then show ?thesis
    by (subst (asm) store_bytes_Some_iff [symmetric]) (auto simp: store64_def)
qed

lemma load64_store64_same: "store64 m a w = Ok m' \<Longrightarrow> load64 m' a = Ok w"
  using load_bytes_store_same [of m a "bytes_of 8 w" m'] by (simp add: load64_def store64_def)

lemma load64_store64_apart: "store64 m a w = Ok m' \<Longrightarrow> apart a 8 b 8 \<Longrightarrow> load64 m' b = load64 m b"
  using load_bytes_store_apart [of m a "bytes_of 8 w" m' b 8] by (simp add: load64_def store64_def)

lemma load32_store64_apart: "store64 m a w = Ok m' \<Longrightarrow> apart a 8 b 4 \<Longrightarrow> load32 m' b = load32 m b"
  using load_bytes_store_apart [of m a "bytes_of 8 w" m' b 4] by (simp add: load32_def store64_def)

lemma load32_store32_same: "store32 m a w = Ok m' \<Longrightarrow> load32 m' a = Ok w"
  using load_bytes_store_same [of m a "bytes_of 4 w" m'] by (simp add: load32_def store32_def)

lemma load32_total_store32:
  assumes "load32 m a = Ok v"
  shows "\<exists>m'. store32 m a w = Ok m'"
proof -
  have "\<exists>cs. load_bytes m a (length (bytes_of 4 w)) = Some cs"
    using assms by (auto simp: load32_def)
  then show ?thesis
    by (subst (asm) store_bytes_Some_iff [symmetric]) (auto simp: store32_def)
qed

lemma load64_store32_apart: "store32 m a w = Ok m' \<Longrightarrow> apart a 4 b 8 \<Longrightarrow> load64 m' b = load64 m b"
  using load_bytes_store_apart [of m a "bytes_of 4 w" m' b 8] by (simp add: load64_def store32_def)

lemma store64_dom: "store64 m a w = Ok m' \<Longrightarrow> dom m' = dom m"
  unfolding store64_def using store_bytes_dom by (metis of_option_eq_Ok)

text \<open>8-byte aligned addresses; different aligned words do not overlap.\<close>

definition aligned8 :: "u64 \<Rightarrow> bool" where
  "aligned8 a \<longleftrightarrow> a AND 7 = 0"

lemma aligned8_take_bit: "aligned8 a \<longleftrightarrow> take_bit 3 a = 0"
proof -
  have "(7 :: u64) = mask 3" by (simp add: mask_eq_exp_minus_1)
  then show ?thesis by (simp add: aligned8_def take_bit_eq_mask)
qed

lemma aligned8_mult [simp]: "aligned8 (8 * x)"
proof -
  have "8 * x = push_bit 3 x" by (simp add: push_bit_eq_mult mult.commute)
  then show ?thesis by (simp add: aligned8_take_bit take_bit_push_bit)
qed

lemma aligned8_iff_mult: "aligned8 x \<longleftrightarrow> (\<exists>q. x = 8 * q)"
proof
  assume "aligned8 x"
  then have "x = push_bit 3 (drop_bit 3 x)"
    using bits_ident [of 3 x] by (simp add: aligned8_take_bit)
  then have "x = 8 * drop_bit 3 x"
    by (simp add: push_bit_eq_mult mult.commute)
  then show "\<exists>q. x = 8 * q" ..
qed auto

lemma aligned8_diff: "aligned8 a \<Longrightarrow> aligned8 b \<Longrightarrow> aligned8 (b - a)"
  unfolding aligned8_iff_mult by (metis right_diff_distrib)

lemma aligned8_add: "aligned8 a \<Longrightarrow> aligned8 b \<Longrightarrow> aligned8 (a + b)"
  unfolding aligned8_iff_mult by (metis distrib_left)

lemma aligned8_ge: "aligned8 x \<Longrightarrow> x \<noteq> 0 \<Longrightarrow> 8 \<le> unat x"
proof (rule ccontr)
  assume x: "aligned8 x" "x \<noteq> 0" "\<not> 8 \<le> unat x"
  then have "take_bit 3 (unat x) = unat x" by (intro take_bit_nat_eq_self) simp
  then have "unat (take_bit 3 x) = unat x" by (simp add: unsigned_take_bit_eq)
  with x show False by (simp add: aligned8_take_bit unsigned_eq_0_iff)
qed

lemma apart_aligned8: "aligned8 a \<Longrightarrow> aligned8 b \<Longrightarrow> a \<noteq> b \<Longrightarrow> apart a 8 b 8"
  by (simp add: apart_def aligned8_ge aligned8_diff)

lemma apart_shrink: "apart a n b k \<Longrightarrow> k' \<le> k \<Longrightarrow> apart a n b k'"
  by (simp add: apart_def)

text \<open>A part of a separate range is separate.\<close>

lemma apart_shrink_left: "apart a n b k \<Longrightarrow> n' \<le> n \<Longrightarrow> apart a n' b k"
  by (simp add: apart_def)

lemma apart_part:
  assumes "apart a n b k" "j + k' \<le> k" "0 < k'"
  shows "apart a n (b + of_nat j) k'"
proof -
  have k: "k \<le> unat (a - b)" "k < 2 ^ 64"
    using assms(1) unsigned_less [of "a - b", where ?'a = nat] by (auto simp: apart_def)
  have j: "unat (of_nat j :: u64) = j" using k(2) assms(2) by (intro unat_of_nat64) simp
  then have "of_nat j \<le> a - b" using k(1) assms(2) by (simp add: word_le_nat_alt)
  then have "unat (a - b - of_nat j) = unat (a - b) - j" by (simp add: unat_sub j)
  then have "k' \<le> unat (a - (b + of_nat j))" using k(1) assms(2) by (simp add: diff_diff_eq)
  moreover have "n \<le> unat (b + of_nat j - a)"
    using apart_elem [OF assms(1)] assms(2,3) by simp
  ultimately show ?thesis by (simp add: apart_def)
qed

lemma apart_aligned8_half: "aligned8 a \<Longrightarrow> aligned8 b \<Longrightarrow> a \<noteq> b \<Longrightarrow> apart a 8 b 4"
  by (rule apart_shrink [OF apart_aligned8]) auto


section \<open>Byte copies\<close>

lemma copy_nonoverlapping_bytes:
  assumes "copy_nonoverlapping m src dst n = Ok m'" "n < 2 ^ 64"
  shows "m' x = (if unat (x - dst) < n then m (src + (x - dst)) else m x)"
proof -
  obtain bs where bs: "load_bytes m src n = Some bs" "store_bytes m dst bs = Some m'"
    using assms(1) by (auto simp: copy_nonoverlapping_def split: if_splits)
  from bs(1) have len: "length bs = n" "\<And>i. i < n \<Longrightarrow> m (src + of_nat i) = Some (bs ! i)"
    by (auto simp: load_bytes_eq_Some)
  show ?thesis
    using store_bytes_apply [OF bs(2)] len(1) len(2) [of "unat (x - dst)"] assms(2) by auto
qed

lemma load_bytes_copy:
  assumes "copy_nonoverlapping m src dst n = Ok m'" "n < 2 ^ 64" "j + k \<le> n"
  shows "load_bytes m' (dst + of_nat j) k = load_bytes m (src + of_nat j) k"
proof -
  have "m' (dst + of_nat j + of_nat i) = m (src + of_nat j + of_nat i)" if "i < k" for i
  proof -
    have "unat (of_nat (j + i) :: u64) = j + i"
      using assms(2,3) that by (intro unat_of_nat64) simp
    then show ?thesis
      using copy_nonoverlapping_bytes [OF assms(1,2), of "dst + of_nat (j + i)"] assms(3) that
      by (simp add: add.assoc)
  qed
  then have "load_bytes m' (dst + of_nat j) k = Some cs \<longleftrightarrow>
      load_bytes m (src + of_nat j) k = Some cs" for cs
    unfolding load_bytes_eq_Some by auto
  then show ?thesis by (metis not_Some_eq)
qed

lemma load_copy:
  assumes "copy_nonoverlapping m src dst n = Ok m'" "n < 2 ^ 64"
  shows "j + 8 \<le> n \<Longrightarrow> load64 m' (dst + of_nat j) = load64 m (src + of_nat j)"
    and "j + 4 \<le> n \<Longrightarrow> load32 m' (dst + of_nat j) = load32 m (src + of_nat j)"
  using load_bytes_copy [OF assms] by (simp_all add: load64_def load32_def)

lemma load_bytes_copy_apart:
  assumes "copy_nonoverlapping m src dst n = Ok m'" "n < 2 ^ 64" "apart dst n b k"
  shows "load_bytes m' b k = load_bytes m b k"
proof -
  have "m' (b + of_nat j) = m (b + of_nat j)" if "j < k" for j
    using copy_nonoverlapping_bytes [OF assms(1,2)] apart_elem [OF assms(3) that] by auto
  then have "load_bytes m' b k = Some cs \<longleftrightarrow> load_bytes m b k = Some cs" for cs
    unfolding load_bytes_eq_Some by auto
  then show ?thesis by (metis not_Some_eq)
qed

lemma load_copy_apart:
  assumes "copy_nonoverlapping m src dst n = Ok m'" "n < 2 ^ 64"
  shows "apart dst n b 8 \<Longrightarrow> load64 m' b = load64 m b"
    and "apart dst n b 4 \<Longrightarrow> load32 m' b = load32 m b"
  using load_bytes_copy_apart [OF assms] by (simp_all add: load64_def load32_def)


text \<open>A copy succeeds between mapped ranges that do not meet.\<close>

definition mapped :: "mem \<Rightarrow> u64 \<Rightarrow> nat \<Rightarrow> bool" where
  "mapped m a n \<longleftrightarrow> load_bytes m a n \<noteq> None"

lemma copy_nonoverlapping_total:
  assumes "mapped m src n" "mapped m dst n" "apart src n dst n" "n < 2 ^ 64"
  shows "\<exists>m'. copy_nonoverlapping m src dst n = Ok m'"
proof -
  obtain bs where bs: "load_bytes m src n = Some bs" using assms(1) by (auto simp: mapped_def)
  then have "length bs = n" by (simp add: load_bytes_eq_Some)
  then have "\<exists>m'. store_bytes m dst bs = Some m'"
    using store_bytes_Some_iff [of bs m dst] assms(2,4) by (auto simp: mapped_def)
  then show ?thesis using bs assms(3) by (auto simp: copy_nonoverlapping_def)
qed

lemma load_bytes_add:
  "load_bytes m a (n + k) =
     (case load_bytes m a n of None \<Rightarrow> None
      | Some bs \<Rightarrow> map_option ((@) bs) (load_bytes m (a + of_nat n) k))"
proof (induction n arbitrary: a)
  case 0
  then show ?case by (cases "load_bytes m a k") auto
next
  case (Suc n)
  then show ?case by (auto split: option.splits simp: algebra_simps option.map_comp comp_def intro!: option.map_cong)
qed

lemma mapped_add: "mapped m a (n + k) \<longleftrightarrow> mapped m a n \<and> mapped m (a + of_nat n) k"
  by (auto simp: mapped_def load_bytes_add split: option.splits)


section \<open>The interface of a word store\<close>

text \<open>
  What the scanning code relies on: a store succeeds where a load does, the stored word
  is read back, and a word of a separate address keeps its value.
\<close>

locale word_store =
  fixes ld :: "'m \<Rightarrow> u64 \<Rightarrow> u64 res"
    and st :: "'m \<Rightarrow> u64 \<Rightarrow> u64 \<Rightarrow> 'm res"
  assumes store_total: "ld m a = Ok v \<Longrightarrow> \<exists>m'. st m a w = Ok m'"
    and load_store_same: "st m a w = Ok m' \<Longrightarrow> ld m' a = Ok w"
    and load_store_apart: "st m a w = Ok m' \<Longrightarrow> apart a 8 b 8 \<Longrightarrow> ld m' b = ld m b"
begin

lemma load_store_aligned:
  assumes "st m a w = Ok m'" "aligned8 a" "aligned8 b"
  shows "ld m' b = (if b = a then Ok w else ld m b)"
  using assms load_store_same load_store_apart apart_aligned8 by auto

text \<open>
  Rewriting the words of a list of distinct aligned slots one after the other, each by
  a function of its own old value, rewrites exactly these slots.
\<close>

lemma update_slots:
  assumes "foldR (\<lambda>a m. bindR (ld m a) (\<lambda>v. case f v of None \<Rightarrow> Ok m | Some w \<Rightarrow> st m a w)) as m = Ok m'"
    and "distinct as" "\<forall>a\<in>set as. aligned8 a" "aligned8 b"
  shows "ld m' b = (if b \<in> set as
    then bindR (ld m b) (\<lambda>v. Ok (case f v of None \<Rightarrow> v | Some w \<Rightarrow> w)) else ld m b)"
  using assms(1-3)
proof (induction as arbitrary: m)
  case Nil
  then show ?case by simp
next
  case (Cons a as)
  from Cons.prems(1) obtain v m1 where v: "ld m a = Ok v"
    and m1: "(case f v of None \<Rightarrow> Ok m | Some w \<Rightarrow> st m a w) = Ok m1"
    and rest: "foldR (\<lambda>a m. bindR (ld m a) (\<lambda>v. case f v of None \<Rightarrow> Ok m | Some w \<Rightarrow> st m a w)) as m1 = Ok m'"
    by auto
  have IH: "ld m' b = (if b \<in> set as
      then bindR (ld m1 b) (\<lambda>v. Ok (case f v of None \<Rightarrow> v | Some w \<Rightarrow> w)) else ld m1 b)"
    using Cons.IH [OF rest] Cons.prems by simp
  have "ld m1 b = (if b = a then Ok (case f v of None \<Rightarrow> v | Some w \<Rightarrow> w) else ld m b)"
    using m1 v load_store_aligned [of m a _ m1 b] Cons.prems(3) assms(4)
    by (auto split: option.splits)
  then show ?case using IH Cons.prems(2) v by auto
qed

end

interpretation bytes: word_store load64 store64
  by unfold_locales (auto intro: load64_total_store load64_store64_same load64_store64_apart)

lemmas load_after_store [mem_simps] = bytes.load_store_aligned bytes.load_store_same


section \<open>Stores given by a table of words\<close>

text \<open>
  A store laid out as a table from aligned addresses to words: the form in which
  concrete memories are written down and evaluated.
\<close>

definition word_mem :: "(u64 \<times> u64) list \<Rightarrow> mem" where
  "word_mem ws x = map_option (\<lambda>w. ucast (drop_bit (8 * unat (x AND 7)) w)) (map_of ws (x AND NOT 7))"


lemma nth_bytes_of: "i < n \<Longrightarrow> bytes_of n w ! i = ucast (drop_bit (8 * i) (w :: 'a::len word))"
proof (induction n arbitrary: w i)
  case 0
  then show ?case by simp
next
  case (Suc n)
  then show ?case by (cases i) (simp_all add: drop_bit_drop_bit add.commute)
qed

text \<open>Storing the word that is there changes nothing.\<close>

lemma bytes_of_take_bit: "8 * n \<le> k \<Longrightarrow> bytes_of n (take_bit k w) = bytes_of n (w :: 'a::len word)"
  by (rule nth_equalityI) (auto simp: nth_bytes_of intro!: bit_word_eqI simp: bit_simps)

lemma bytes_of_of_bytes: "8 * length bs \<le> LENGTH('a) \<Longrightarrow> bytes_of (length bs) (of_bytes bs :: 'a::len word) = bs"
proof (induction bs)
  case (Cons b bs)
  let ?r = "of_bytes bs :: 'a word"
  have "ucast (ucast b OR push_bit 8 ?r) = b"
    by (rule bit_word_eqI) (use Cons.prems in \<open>auto simp: bit_simps\<close>)
  moreover have "drop_bit 8 (ucast b OR push_bit 8 ?r) = take_bit (LENGTH('a) - 8) ?r"
    by (rule bit_word_eqI) (use Cons.prems in \<open>auto simp: bit_simps dest: bit_imp_le_length\<close>)
  ultimately show ?case
    using Cons bytes_of_take_bit [of "length bs" "LENGTH('a) - 8" ?r] by simp
qed simp

lemma store64_same:
  assumes "load64 m a = Ok w"
  shows "store64 m a w = Ok m"
proof -
  obtain bs where bs: "load_bytes m a 8 = Some bs" "w = of_bytes bs"
    using assms by (auto simp: load64_def)
  then have len: "length bs = 8" and at: "\<forall>i<8. m (a + of_nat i) = Some (bs ! i)"
    by (auto simp: load_bytes_eq_Some)
  then have w: "bytes_of 8 w = bs"
    using bytes_of_of_bytes [where bs = bs and 'a = 64] bs(2) by simp
  obtain m' where m': "store_bytes m a bs = Some m'"
    using store_bytes_Some_iff [of bs m a] bs(1) len by auto
  have "m' x = m x" for x
    using store_bytes_apply [OF m', of x] at [rule_format, of "unat (x - a)"] len by auto
  then show ?thesis using m' w by (simp add: store64_def ext)
qed

lemma aligned8_parts:
  assumes "aligned8 a" "i < 8"
  shows "(a + of_nat i) AND NOT 7 = a" "unat ((a + of_nat i) AND 7) = i"
proof -
  have seven: "(7 :: u64) = mask 3" by (simp add: mask_eq_exp_minus_1)
  have a: "3 \<le> n" if "bit a n" for n
  proof -
    have "bit (take_bit 3 a) n \<or> 3 \<le> n" using that by (auto simp: bit_take_bit_iff)
    then show ?thesis using assms(1) by (simp add: aligned8_take_bit)
  qed
  have "take_bit 3 i = i"
    using assms(2) by (intro take_bit_nat_eq_self) simp
  then have i: "n < 3" if "bit i n" for n
    using that by (metis bit_take_bit_iff)
  have or: "a + of_nat i = a OR of_nat i"
    by (rule disjunctive_add) (use a i in \<open>auto simp: bit_simps dest: leD\<close>)
  show "(a + of_nat i) AND NOT 7 = a"
    unfolding or seven by (rule bit_word_eqI) (use a i in \<open>auto simp: bit_simps not_less dest: leD\<close>)
  have "(a + of_nat i) AND 7 = of_nat i"
    unfolding or seven by (rule bit_word_eqI) (use a i in \<open>auto simp: bit_simps not_less dest: leD\<close>)
  then show "unat ((a + of_nat i) AND 7) = i" using assms(2) by simp
qed

lemma word_mem_byte:
  assumes "aligned8 a" "i < 8"
  shows "word_mem ws (a + of_nat i) = map_option (\<lambda>w. ucast (drop_bit (8 * i) w)) (map_of ws a)"
  using aligned8_parts [OF assms] by (simp add: word_mem_def)

lemma load_bytes_word_mem:
  assumes "aligned8 a" "k + n \<le> 8" "0 < n" "8 * n \<le> LENGTH('a)"
  shows "load_bytes (word_mem ws) (a + of_nat k) n =
    map_option (\<lambda>w. bytes_of n (ucast (drop_bit (8 * k) w) :: 'a::len word)) (map_of ws a)"
proof (cases "map_of ws a")
  case None
  then have "word_mem ws (a + of_nat k) = None"
    using word_mem_byte [OF assms(1), of k] assms(2,3) by simp
  then show ?thesis using None assms(3) by (cases n) simp_all
next
  case (Some w)
  let ?v = "ucast (drop_bit (8 * k) w) :: 'a word"
  have "word_mem ws (a + of_nat k + of_nat i) = Some (bytes_of n ?v ! i)" if "i < n" for i
  proof -
    have "ucast (drop_bit (8 * i) ?v) = (ucast (drop_bit (8 * (k + i)) w) :: u8)"
      using that assms(2,4) by (intro bit_word_eqI) (auto simp: bit_simps algebra_simps)
    then show ?thesis
      using word_mem_byte [OF assms(1), of "k + i"] that assms(2) Some
      by (simp add: nth_bytes_of add.assoc)
  qed
  then show ?thesis using Some by (simp add: load_bytes_eq_Some)
qed

lemma load64_word_mem [simp, mem_simps]:
  "aligned8 a \<Longrightarrow> load64 (word_mem ws) a = of_option Segv (map_of ws a)"
  using load_bytes_word_mem [where k = 0 and n = 8 and 'a = 64, of a ws]
  by (cases "map_of ws a") (simp_all add: load64_def)

lemma load32_word_mem_parts:
  assumes "aligned8 a"
  shows "load32 (word_mem ws) a = of_option Segv (map_option ucast (map_of ws a))"
    and "load32 (word_mem ws) (a + 4) = of_option Segv (map_option (\<lambda>w. ucast (drop_bit 32 w)) (map_of ws a))"
  using assms load_bytes_word_mem [where k = 0 and n = 4 and 'a = 32, of a ws]
    load_bytes_word_mem [where k = 4 and n = 4 and 'a = 32, of a ws]
  by (cases "map_of ws a"; simp add: load32_def)+

lemma load16_word_mem:
  assumes "aligned8 a" "k < 4"
  shows "load16 (word_mem ws) (a + 2 * of_nat k) =
    of_option Segv (map_option (\<lambda>w. ucast (drop_bit (16 * k) w)) (map_of ws a))"
  using load_bytes_word_mem [where k = "2 * k" and n = 2 and 'a = 16, of a ws] assms
  by (cases "map_of ws a") (simp_all add: load16_def of_bytes_bytes_of take_bit_word_eq_self)

lemma load32_word_mem [simp, mem_simps]:
  "aligned8 a \<Longrightarrow> load32 (word_mem ws) a = of_option Segv (map_option ucast (map_of ws a))"
  "aligned8 (a - 4) \<Longrightarrow> load32 (word_mem ws) a =
     of_option Segv (map_option (\<lambda>w. ucast (drop_bit 32 w)) (map_of ws (a - 4)))"
  using load32_word_mem_parts [of a] load32_word_mem_parts [of "a - 4"] by simp_all

lemma store64_word_mem [simp, mem_simps]:
  assumes "aligned8 a" "map_of ws a = Some v"
  shows "store64 (word_mem ws) a w = Ok (word_mem ((a, w) # ws))"
proof -
  have "load64 (word_mem ws) a = Ok v" using assms by simp
  then obtain m' where m': "store64 (word_mem ws) a w = Ok m'"
    using load64_total_store by blast
  then have sb: "store_bytes (word_mem ws) a (bytes_of 8 w) = Some m'"
    by (simp add: store64_def)
  have "m' x = word_mem ((a, w) # ws) x" for x
  proof (cases "unat (x - a) < 8")
    case True
    then have "word_mem ((a, w) # ws) x = Some (ucast (drop_bit (8 * unat (x - a)) w))"
      using word_mem_byte [OF assms(1) True, of "(a, w) # ws"] by simp
    then show ?thesis using store_bytes_apply [OF sb, of x] True by (simp add: nth_bytes_of)
  next
    case False
    have "x AND NOT 7 \<noteq> a"
    proof
      assume a: "x AND NOT 7 = a"
      have "(x AND NOT 7) OR (x AND 7) = x"
        by (rule bit_word_eqI) (auto simp: bit_simps)
      moreover have "(x AND NOT 7) + (x AND 7) = (x AND NOT 7) OR (x AND 7)"
        by (rule disjunctive_add) (auto simp: bit_simps)
      ultimately have "x = (x AND NOT 7) + (x AND 7)" by simp
      then have "x - a = x AND 7" using a by (simp add: algebra_simps)
      moreover have "x AND 7 \<le> 7" by (rule word_and_le1)
      ultimately show False using False by (simp add: word_le_nat_alt)
    qed
    then show ?thesis using store_bytes_apply [OF sb, of x] False by (simp add: word_mem_def)
  qed
  then show ?thesis using m' by auto
qed

lemma mapped_word_mem:
  assumes "aligned8 a" "list_all (\<lambda>j. map_of ws (a + 8 * of_nat j) \<noteq> None) [0..<k]"
  shows "mapped (word_mem ws) a (8 * k)"
  using assms(2)
proof (induction k)
  case 0
  then show ?case by (simp add: mapped_def)
next
  case (Suc k)
  have "aligned8 (a + 8 * of_nat k)" using assms(1) by (rule aligned8_add) simp
  then have "load64 (word_mem ws) (a + 8 * of_nat k) = of_option Segv (map_of ws (a + 8 * of_nat k))"
    by simp
  then have "mapped (word_mem ws) (a + 8 * of_nat k) 8"
    using Suc.prems by (auto simp: load64_def mapped_def)
  then show ?case
    using Suc mapped_add [of "word_mem ws" a "8 * k" 8] by (simp add: add.commute)
qed

end
