(* ===== verification/Config.thy ===== *)
theory Config
  imports Memory
begin

text \<open>
  What the binding is configured with: the build (Cargo features and profile), the
  table of upcalls the Scala Native runtime hands over, and the functions of
  mmtk-core that the binding calls. The last two are code outside this repository, so
  they are parameters: records of values and functions that the definitions take as
  arguments. Upcalls that only act on the runtime are events of a trace.
\<close>

section \<open>The build\<close>

text \<open>
  \<open>dbg\<close>: the profile with \<open>debug_assert!\<close> and overflow checks. \<open>uses_lockword\<close> and
  \<open>object_pinning\<close> are the Cargo features the code is conditional on.
\<close>

record build =
  dbg :: bool
  uses_lockword :: bool
  object_pinning :: bool


section \<open>Upcalls\<close>

record stack_range =
  stack_top :: u64
  stack_bottom :: u64

record regs_range =
  regs :: u64
  regs_size :: u64

text \<open>
  The upcalls of \<open>ScalaNativeUpcalls\<close> that return a value. \<open>get_mutators\<close> calls its
  closure on every mutator, so it is the list of these mutators.
\<close>

record upcalls = build +
  get_object_array_id :: i32
  get_weak_ref_ids_min :: i32
  get_weak_ref_ids_max :: i32
  get_weak_ref_field_offset :: i32
  get_array_ids_min :: i32
  get_array_ids_max :: i32
  get_allocation_alignment :: u64
  get_stack_range :: "u64 \<Rightarrow> stack_range"
  get_regs_range :: "u64 \<Rightarrow> regs_range"
  get_modules :: u64
  get_modules_size :: i32
  get_mutator_threads :: u64
  get_mutators :: "u64 list"
  is_mutator :: "u64 \<Rightarrow> bool"
  number_of_mutators :: u64
  get_mmtk_mutator :: "u64 \<Rightarrow> u64"
  get_gc_thread_tls :: u64
  get_mutator_context_offset :: u64

type_synonym cfg = upcalls

text \<open>The upcalls that act on the runtime, as the events of a trace.\<close>

datatype alloc_error = HeapOutOfMemory | MmapOutOfMemory

datatype upcall =
    Stop_all_mutators u64
  | Resume_mutators u64
  | Block_for_gc u64
  | Out_of_memory u64 alloc_error
  | Schedule_finalizer
  | Init_gc_worker_thread u64 u64
  | Init_synchronizer_thread
  | Prepare_for_roots_re_scanning


section \<open>mmtk-core\<close>

text \<open>
  The functions of mmtk-core and of its traits that the binding calls. \<open>'t\<close> is the
  state of mmtk-core. \<open>trace_object\<close> is the tracer's: it returns the object's current
  address and may copy objects, so it also takes and returns the memory, as the copy
  context's \<open>alloc_copy\<close> and \<open>post_copy\<close> do.
  \<open>visit_edge\<close> hands an edge to the scheduler.
\<close>

text \<open>\<open>edges.rs\<close>: an edge is mmtk-core's \<open>SimpleEdge\<close>, which holds the address of a slot.\<close>

type_synonym scalanative_edge = u64

text \<open>\<open>UnimplementedMemorySlice<SimpleEdge>\<close>; \<open>'slice\<close> stands for the type of mmtk-core.\<close>

type_synonym 'slice scalanative_memory_slice = 'slice

record 't mmtk =
  starting_heap_address :: u64
  last_heap_address :: u64
  is_mmtk_object :: "'t \<Rightarrow> u64 \<Rightarrow> bool"
  visit_edge :: "scalanative_edge \<Rightarrow> 't \<Rightarrow> 't"
  trace_object :: "u64 \<Rightarrow> mem \<times> 't \<Rightarrow> u64 \<times> mem \<times> 't"
  is_reachable :: "'t \<Rightarrow> u64 \<Rightarrow> bool"
  pin_object :: "u64 \<Rightarrow> 't \<Rightarrow> bool \<times> 't"
  unpin_object :: "u64 \<Rightarrow> 't \<Rightarrow> bool \<times> 't"
  alloc_copy :: "u64 \<Rightarrow> u64 \<Rightarrow> u64 \<Rightarrow> u64 \<Rightarrow> nat \<Rightarrow> mem \<times> 't \<Rightarrow> u64 \<times> mem \<times> 't"
  post_copy :: "u64 \<Rightarrow> u64 \<Rightarrow> nat \<Rightarrow> mem \<times> 't \<Rightarrow> mem \<times> 't"


section \<open>Concrete configurations\<close>

text \<open>
  A runtime like Scala Native's, with checks on and lock words in the headers: the
  configuration in which the witnesses evaluate the model.
\<close>

definition sample_cfg :: cfg where
  "sample_cfg =
     \<lparr>dbg = True, uses_lockword = True, object_pinning = False,
      get_object_array_id = 12,
      get_weak_ref_ids_min = 30, get_weak_ref_ids_max = 31, get_weak_ref_field_offset = 0,
      get_array_ids_min = 10, get_array_ids_max = 20,
      get_allocation_alignment = 16,
      get_stack_range = (\<lambda>_. \<lparr>stack_top = 0x7000, stack_bottom = 0x7008\<rparr>),
      get_regs_range = (\<lambda>_. \<lparr>regs = 0x7100, regs_size = 1\<rparr>),
      get_modules = 0x6000, get_modules_size = 2,
      get_mutator_threads = 0x5000,
      get_mutators = [0x5100, 0x5200],
      is_mutator = (\<lambda>t. t = 0x5500),
      number_of_mutators = 2,
      get_mmtk_mutator = (\<lambda>t. t + 0x100),
      get_gc_thread_tls = 0x4000,
      get_mutator_context_offset = 64\<rparr>"

text \<open>A plain mmtk-core whose state lists the valid objects and logs the edges and traced objects.\<close>

record core =
  objects :: "u64 list"
  edge_log :: "u64 list"
  traced_log :: "u64 list"
  forwarded :: "(u64 \<times> u64) list"

definition sample_mmtk :: "core mmtk" where
  "sample_mmtk =
     \<lparr>starting_heap_address = 0x10000, last_heap_address = 0x20000,
      is_mmtk_object = (\<lambda>t a. a \<in> set (objects t)),
      visit_edge = (\<lambda>e t. t\<lparr>edge_log := edge_log t @ [e]\<rparr>),
      trace_object = (\<lambda>a (m, t).
        ((case map_of (forwarded t) a of None \<Rightarrow> a | Some b \<Rightarrow> b),
         m, t\<lparr>traced_log := traced_log t @ [a]\<rparr>)),
      is_reachable = (\<lambda>t a. a \<in> set (objects t)),
      pin_object = (\<lambda>a t. (a \<in> set (objects t), t)),
      unpin_object = (\<lambda>a t. (a \<in> set (objects t), t)),
      alloc_copy = (\<lambda>from bytes align offset sem (m, t). (0x18000, m, t)),
      post_copy = (\<lambda>obj bytes sem (m, t). (m, t\<lparr>objects := obj # objects t\<rparr>))\<rparr>"

definition sample_core :: "u64 list \<Rightarrow> core" where
  "sample_core objs = \<lparr>objects = objs, edge_log = [], traced_log = [], forwarded = []\<rparr>"

lemma sample_cfg_simps [simp]:
  "dbg sample_cfg" "uses_lockword sample_cfg" "\<not> object_pinning sample_cfg"
  "get_object_array_id sample_cfg = 12"
  "get_weak_ref_ids_min sample_cfg = 30" "get_weak_ref_ids_max sample_cfg = 31"
  "get_weak_ref_field_offset sample_cfg = 0"
  "get_array_ids_min sample_cfg = 10" "get_array_ids_max sample_cfg = 20"
  "get_allocation_alignment sample_cfg = 16"
  "get_modules sample_cfg = 0x6000" "get_modules_size sample_cfg = 2"
  "get_mutator_threads sample_cfg = 0x5000" "get_mutators sample_cfg = [0x5100, 0x5200]"
  "get_gc_thread_tls sample_cfg = 0x4000"
  "get_stack_range sample_cfg t = \<lparr>stack_top = 0x7000, stack_bottom = 0x7008\<rparr>"
  "get_regs_range sample_cfg t = \<lparr>regs = 0x7100, regs_size = 1\<rparr>"
  by (simp_all add: sample_cfg_def)


section \<open>Debug assertions\<close>

definition debug_assert :: "'a build_scheme \<Rightarrow> bool res \<Rightarrow> unit res" where
  "debug_assert c r = (if dbg c then bindR r (guardR Assert_failed) else Ok ())"

lemma debug_assert_release [simp]: "\<not> dbg c \<Longrightarrow> debug_assert c r = Ok ()"
  by (simp add: debug_assert_def)

lemma debug_assert_true [simp]: "debug_assert c (Ok True) = Ok ()"
  by (simp add: debug_assert_def)

lemma debug_assert_false [simp]: "dbg c \<Longrightarrow> debug_assert c (Ok False) = Err Assert_failed"
  by (simp add: debug_assert_def)

lemma debug_assert_eq_Ok: "debug_assert c r = Ok u \<longleftrightarrow> (dbg c \<longrightarrow> r = Ok True)"
  by (auto simp: debug_assert_def bindR_def split: sum.splits)

end
