(* ===== verification/Layout.thy ===== *)
theory Layout
  imports Config
begin

text \<open>
  The memory layout of the runtime's structures (\<open>src/mmtk/src/abi.rs\<close>). A
  \<open>#[repr(C)]\<close> struct is a list of named fields in source order; offsets and sizes are
  computed by the C layout rule, so that fields under \<open>#[cfg(feature = "uses_lockword")]\<close>
  shift what follows them, as they do in the code.
\<close>

section \<open>The C layout rule\<close>

datatype ctype = I16 | I32 | I64 | Usize | Ptr | Array0 ctype | Struct "(string \<times> ctype) list"

definition align_to :: "nat \<Rightarrow> nat \<Rightarrow> nat" where
  "align_to n a = (n + a - 1) div a * a"

fun align_of :: "ctype \<Rightarrow> nat"
  and align_of_fields :: "(string \<times> ctype) list \<Rightarrow> nat" where
  "align_of I16 = 2"
| "align_of I32 = 4"
| "align_of I64 = 8"
| "align_of Usize = 8"
| "align_of Ptr = 8"
| "align_of (Array0 t) = align_of t"
| "align_of (Struct fs) = align_of_fields fs"
| "align_of_fields [] = 1"
| "align_of_fields ((n, t) # fs) = max (align_of t) (align_of_fields fs)"

fun size_of :: "ctype \<Rightarrow> nat"
  and end_of :: "nat \<Rightarrow> (string \<times> ctype) list \<Rightarrow> nat" where
  "size_of I16 = 2"
| "size_of I32 = 4"
| "size_of I64 = 8"
| "size_of Usize = 8"
| "size_of Ptr = 8"
| "size_of (Array0 t) = 0"
| "size_of (Struct fs) = align_to (end_of 0 fs) (align_of_fields fs)"
| "end_of p [] = p"
| "end_of p ((n, t) # fs) = end_of (align_to p (align_of t) + size_of t) fs"

fun offset_from :: "nat \<Rightarrow> (string \<times> ctype) list \<Rightarrow> string \<Rightarrow> nat" where
  "offset_from p [] f = p"
| "offset_from p ((n, t) # fs) f =
     (if n = f then align_to p (align_of t)
      else offset_from (align_to p (align_of t) + size_of t) fs f)"

fun offset_of :: "ctype \<Rightarrow> string \<Rightarrow> nat" where
  "offset_of (Struct fs) f = offset_from 0 fs f"
| "offset_of _ f = 0"

lemma align_of_pos: "0 < align_of t" "0 < align_of_fields fs"
  by (induction t and fs rule: align_of_align_of_fields.induct) auto

lemma align_to_ge: "0 < a \<Longrightarrow> n \<le> align_to n a"
proof -
  assume a: "0 < a"
  have "(n + a - 1) div a * a + (n + a - 1) mod a = n + a - 1" by simp
  moreover have "(n + a - 1) mod a < a" using a by simp
  ultimately show ?thesis unfolding align_to_def by linarith
qed

lemma align_to_dvd: "a dvd align_to n a"
  by (simp add: align_to_def)

lemma end_of_ge: "p \<le> end_of p fs"
proof (induction fs arbitrary: p)
  case Nil
  then show ?case by simp
next
  case (Cons f fs)
  obtain n t where f: "f = (n, t)" by (cases f)
  have "p \<le> align_to p (align_of t) + size_of t"
    using align_to_ge [of "align_of t" p] align_of_pos(1) by (simp add: trans_le_add1)
  also have "\<dots> \<le> end_of (align_to p (align_of t) + size_of t) fs" by (rule Cons)
  finally show ?case by (simp add: f)
qed

text \<open>Every field is aligned for its type, and lies between its neighbours.\<close>

lemma offset_from_bounds:
  assumes "(f, t) \<in> set fs" "distinct (map fst fs)"
  shows "p \<le> offset_from p fs f \<and> offset_from p fs f + size_of t \<le> end_of p fs \<and>
    align_of t dvd offset_from p fs f"
  using assms
proof (induction fs arbitrary: p)
  case Nil
  then show ?case by simp
next
  case (Cons g fs)
  obtain n u where g: "g = (n, u)" by (cases g)
  let ?p = "align_to p (align_of u)"
  have p: "p \<le> ?p" using align_to_ge align_of_pos(1) by blast
  show ?case
  proof (cases "n = f")
    case True
    then have "u = t" using Cons.prems g by (auto simp: rev_image_eqI)
    then show ?thesis using True p end_of_ge [of "?p + size_of u" fs] by (simp add: g align_to_dvd)
  next
    case False
    then have "(f, t) \<in> set fs" using Cons.prems g by auto
    from Cons.IH [OF this, of "?p + size_of u"] show ?thesis
      using Cons.prems(2) False p by (auto simp: g)
  qed
qed

lemma offset_from_disjoint:
  assumes "(f, t) \<in> set fs" "(g, u) \<in> set fs" "f \<noteq> g" "distinct (map fst fs)"
  shows "offset_from p fs f + size_of t \<le> offset_from p fs g \<or>
    offset_from p fs g + size_of u \<le> offset_from p fs f"
  using assms
proof (induction fs arbitrary: p)
  case Nil
  then show ?case by simp
next
  case (Cons h fs)
  obtain n v where h: "h = (n, v)" by (cases h)
  let ?q = "align_to p (align_of v) + size_of v"
  consider "n = f" | "n = g" | "n \<noteq> f" "n \<noteq> g" by blast
  then show ?case
  proof cases
    case 1
    then have "v = t" "(g, u) \<in> set fs" using Cons.prems h by (auto simp: rev_image_eqI)
    then show ?thesis
      using 1 Cons.prems(3,4) offset_from_bounds [of g u fs ?q] by (auto simp: h)
  next
    case 2
    then have "v = u" "(f, t) \<in> set fs" using Cons.prems h by (auto simp: rev_image_eqI)
    then show ?thesis
      using 2 Cons.prems(3,4) offset_from_bounds [of f t fs ?q] by (auto simp: h)
  next
    case 3
    then show ?thesis using Cons.IH [of ?q] Cons.prems by (auto simp: h)
  qed
qed


section \<open>The structures\<close>

definition lock_word_field :: "'a build_scheme \<Rightarrow> (string \<times> ctype) list" where
  "lock_word_field c = (if uses_lockword c then [(''lock_word'', Ptr)] else [])"

definition Runtime :: "'a build_scheme \<Rightarrow> ctype" where
  "Runtime c = Struct ([(''cls'', Ptr)] @ lock_word_field c @
     [(''id'', I32), (''tid'', I32), (''name'', Ptr)])"

definition Rtti :: "'a build_scheme \<Rightarrow> ctype" where
  "Rtti c = Struct [(''rt'', Runtime c), (''size'', I32), (''id_range_until'', I32),
     (''ref_map_struct'', Ptr)]"

definition Object :: "'a build_scheme \<Rightarrow> ctype" where
  "Object c = Struct ([(''rtti'', Ptr)] @ lock_word_field c @ [(''fields'', Array0 Ptr)])"

definition ArrayHeader :: "'a build_scheme \<Rightarrow> ctype" where
  "ArrayHeader c = Struct ([(''rtti'', Ptr)] @ lock_word_field c @
     [(''length'', I32), (''stride'', I32)])"

definition CharArray :: "'a build_scheme \<Rightarrow> ctype" where
  "CharArray c = Struct [(''header'', ArrayHeader c), (''value'', Array0 I16)]"

definition StringObject :: "'a build_scheme \<Rightarrow> ctype" where
  "StringObject c = Struct ([(''rtti'', Ptr)] @ lock_word_field c @
     [(''value'', Ptr), (''offset'', I32), (''count'', I32), (''cached_hash_code'', I32)])"

definition Chunk :: ctype where
  "Chunk = Struct [(''nothing'', Ptr), (''size'', Usize), (''next'', Ptr)]"

definition GCThreadTLS :: ctype where
  "GCThreadTLS = Struct [(''kind'', I32), (''gc_context'', Ptr)]"

definition MutatorThreadNode :: ctype where
  "MutatorThreadNode = Struct [(''value'', Ptr), (''next'', Ptr)]"

text \<open>The address of a field of a structure at a given address.\<close>

definition field :: "ctype \<Rightarrow> string \<Rightarrow> u64 \<Rightarrow> u64" where
  "field T f a = a + of_nat (offset_of T f)"

lemmas layout_defs = lock_word_field_def Runtime_def Rtti_def Object_def ArrayHeader_def
  CharArray_def StringObject_def Chunk_def GCThreadTLS_def MutatorThreadNode_def align_to_def

lemma field_simps [simp]:
  "field (Object c) ''rtti'' a = a"
  "uses_lockword c \<Longrightarrow> field (Object c) ''lock_word'' a = a + 8"
  "field (ArrayHeader c) ''rtti'' a = a"
  "field (ArrayHeader c) ''length'' a = a + (if uses_lockword c then 16 else 8)"
  "field (ArrayHeader c) ''stride'' a = a + (if uses_lockword c then 20 else 12)"
  "field (Rtti c) ''rt'' a = a"
  "uses_lockword c \<Longrightarrow> field (Runtime c) ''lock_word'' a = a + 8"
  "field (Runtime c) ''id'' a = a + (if uses_lockword c then 16 else 8)"
  "field (Runtime c) ''name'' a = a + (if uses_lockword c then 24 else 16)"
  "field (Rtti c) ''size'' a = a + (if uses_lockword c then 32 else 24)"
  "field (Rtti c) ''ref_map_struct'' a = a + (if uses_lockword c then 40 else 32)"
  "field (StringObject c) ''value'' a = a + (if uses_lockword c then 16 else 8)"
  "field (CharArray c) ''header'' a = a"
  "field (CharArray c) ''value'' a = a + (if uses_lockword c then 24 else 16)"
  "field GCThreadTLS ''kind'' a = a"
  "field GCThreadTLS ''gc_context'' a = a + 8"
  "field MutatorThreadNode ''value'' a = a"
  "field MutatorThreadNode ''next'' a = a + 8"
  by (simp_all add: field_def layout_defs)

lemma size_of_simps [simp]:
  "size_of (ArrayHeader c) = (if uses_lockword c then 24 else 16)"
  "size_of (Object c) = (if uses_lockword c then 16 else 8)"
  "size_of (Runtime c) = (if uses_lockword c then 32 else 24)"
  "size_of (Rtti c) = (if uses_lockword c then 48 else 40)"
  by (simp_all add: layout_defs)

text \<open>The header words of an array or a string are where those of an object are.\<close>

lemma shared_headers:
  "offset_of (ArrayHeader c) ''rtti'' = offset_of (Object c) ''rtti''"
  "offset_of (StringObject c) ''rtti'' = offset_of (Object c) ''rtti''"
  "uses_lockword c \<Longrightarrow> offset_of (ArrayHeader c) ''lock_word'' = offset_of (Object c) ''lock_word''"
  "uses_lockword c \<Longrightarrow> offset_of (StringObject c) ''lock_word'' = offset_of (Object c) ''lock_word''"
  by (simp_all add: layout_defs)


section \<open>Fields in memory\<close>

definition structures :: "'a build_scheme \<Rightarrow> ctype list" where
  "structures c = [Runtime c, Rtti c, Object c, ArrayHeader c, CharArray c, StringObject c, Chunk, GCThreadTLS,
     MutatorThreadNode]"

fun fields_of :: "ctype \<Rightarrow> (string \<times> ctype) list" where
  "fields_of (Struct fs) = fs"
| "fields_of _ = []"

lemma structures_are_structs:
  "T \<in> set (structures c) \<Longrightarrow> \<exists>fs. T = Struct fs \<and> distinct (map fst fs)"
  by (auto simp: structures_def layout_defs)

lemma align_power:
  "align_of t \<in> {1, 2, 4, 8}" "align_of_fields fs \<in> {1, 2, 4, 8}"
  by (induction t and fs rule: align_of_align_of_fields.induct) (auto simp: max_def)

lemma align_field: "(f, t) \<in> set fs \<Longrightarrow> align_of t dvd align_of_fields fs"
proof -
  assume "(f, t) \<in> set fs"
  then have "align_of t \<le> align_of_fields fs" by (induction fs) auto
  then show ?thesis using align_power(1) [of t] align_power(2) [of fs] by auto
qed

text \<open>A field at its address: inside the structure, and aligned if the structure is.\<close>

lemma field_inside:
  assumes "(f, t) \<in> set fs" "distinct (map fst fs)" "unat p + size_of (Struct fs) < 2 ^ 64"
  shows "unat (field (Struct fs) f p) = unat p + offset_from 0 fs f"
    "offset_from 0 fs f + size_of t \<le> size_of (Struct fs)"
proof -
  have "offset_from 0 fs f + size_of t \<le> end_of 0 fs" using offset_from_bounds [OF assms(1,2)] by blast
  also have "\<dots> \<le> size_of (Struct fs)" using align_to_ge [OF align_of_pos(2)] by simp
  finally show *: "offset_from 0 fs f + size_of t \<le> size_of (Struct fs)" .
  then show "unat (field (Struct fs) f p) = unat p + offset_from 0 fs f"
    using assms(3) by (simp add: field_def unat_word_ariths unat_of_nat)
qed



end
