(* ===== verification/Pointers.thy ===== *)
theory Pointers
  imports Layout
begin

text \<open>
  The address predicates of \<open>src/mmtk/src/scanning.rs\<close>: the allocation alignment and
  its inverse mask, \<open>is_word_in_heap\<close>, \<open>is_ptr_aligned\<close> and \<open>align_ptr\<close>. The lemmas
  give their meaning for an alignment that is a power of two, as the mask requires.
\<close>

named_theorems ptr_simps \<open>the address predicates for a power-of-two alignment\<close>

section \<open>Definitions\<close>

definition inverse_mask :: "'a upcalls_scheme \<Rightarrow> u64 res" where
  "inverse_mask c = bindR (sub_u (dbg c) (get_allocation_alignment c) 1) (\<lambda>x. Ok (NOT x))"

definition is_word_in_heap :: "'t mmtk \<Rightarrow> u64 \<Rightarrow> bool" where
  "is_word_in_heap mm address \<longleftrightarrow>
     starting_heap_address mm \<le> address \<and> address < last_heap_address mm"

definition is_ptr_aligned :: "'a upcalls_scheme \<Rightarrow> u64 \<Rightarrow> bool res" where
  "is_ptr_aligned c address =
     bindR (inverse_mask c) (\<lambda>mask. let aligned = address AND mask in Ok (aligned = address))"

definition align_ptr :: "'a upcalls_scheme \<Rightarrow> u64 \<Rightarrow> u64 res" where
  "align_ptr c address = bindR (inverse_mask c) (\<lambda>mask. Ok (address AND mask))"


section \<open>Meaning for a power-of-two alignment\<close>

definition alignment_log :: "'a upcalls_scheme \<Rightarrow> nat \<Rightarrow> bool" where
  "alignment_log c k \<longleftrightarrow> k < 64 \<and> get_allocation_alignment c = 2 ^ k"

lemma alignment_log_unat: "alignment_log c k \<Longrightarrow> unat (get_allocation_alignment c) = 2 ^ k"
  by (simp add: alignment_log_def)

lemma inverse_mask_log [ptr_simps]: "alignment_log c k \<Longrightarrow> inverse_mask c = Ok (NOT (mask k))"
  using alignment_log_unat [of c k]
  by (simp add: inverse_mask_def alignment_log_def mask_eq_exp_minus_1)

lemma and_not_mask: "p AND NOT (mask k) = push_bit k (drop_bit k (p :: u64))"
  by (rule bit_word_eqI) (auto simp: bit_simps)

lemma and_not_mask_self: "p AND NOT (mask k) = p \<longleftrightarrow> take_bit k (p :: u64) = 0"
  by (metis and_not_mask add_cancel_right_right bits_ident)

lemma is_ptr_aligned_log [ptr_simps]:
  "alignment_log c k \<Longrightarrow> is_ptr_aligned c p = Ok (take_bit k p = 0)"
  by (simp add: is_ptr_aligned_def ptr_simps and_not_mask_self)

lemma align_ptr_log [ptr_simps]:
  "alignment_log c k \<Longrightarrow> align_ptr c p = Ok (p AND NOT (mask k))"
  by (simp add: align_ptr_def ptr_simps)

lemma align_ptr_aligned:
  "alignment_log c k \<Longrightarrow> take_bit k p = 0 \<Longrightarrow> align_ptr c p = Ok p"
  by (simp add: ptr_simps and_not_mask_self)

lemma aligned_or_low:
  assumes "take_bit k p = 0" "take_bit k b = (b :: u64)"
  shows "(p OR b) AND NOT (mask k) = p"
proof (rule bit_word_eqI)
  fix n assume "n < LENGTH(64)"
  have "\<not> bit p n" if "n < k"
    using assms(1) that by (metis bit_take_bit_iff bit_0_eq bot_apply bot_bool_def)
  moreover have "\<not> bit b n" if "\<not> n < k"
    using assms(2) that by (metis bit_take_bit_iff)
  ultimately show "bit ((p OR b) AND NOT (mask k)) n = bit p n"
    using \<open>n < LENGTH(64)\<close> by (auto simp: bit_simps)
qed

lemma aligned8_log: "alignment_log c k \<Longrightarrow> 3 \<le> k \<Longrightarrow> take_bit k p = 0 \<Longrightarrow> aligned8 p"
  unfolding aligned8_take_bit by (metis min.absorb1 take_bit_take_bit take_bit_of_0)


end
