(* ===== verification/Abi.thy ===== *)
theory Abi
  imports Pointers
begin

text \<open>
  The object model operations of \<open>src/mmtk/src/abi.rs\<close>: the kind tests on the type id,
  object and array sizes (with the variants used while the header word carries
  forwarding bits), field and element addresses, the reference map, the inflation mark
  of lock words and the thread-local record of GC threads. An \<open>Obj\<close> is the address of
  its header.
\<close>

section \<open>Constants and rounding\<close>

definition LAST_FIELD_OFFSET :: i64 where
  "LAST_FIELD_OFFSET = - 1"

definition MONITOR_INFLATION_MARK_MASK :: u64 where
  "MONITOR_INFLATION_MARK_MASK = 1"

definition MONITOR_OBJECT_MASK :: u64 where
  "MONITOR_OBJECT_MASK = NOT MONITOR_INFLATION_MARK_MASK"

definition round_to_next_multiple :: "'a build_scheme \<Rightarrow> u64 \<Rightarrow> u64 \<Rightarrow> u64 res" where
  "round_to_next_multiple c value multiple =
     bindR (add_u (dbg c) value multiple) (\<lambda>s.
     bindR (sub_u (dbg c) s 1) (\<lambda>s.
     bindR (div_u s multiple) (\<lambda>q. mul_u (dbg c) q multiple)))"


section \<open>Header fields\<close>

definition obj_rtti :: "'a build_scheme \<Rightarrow> mem \<Rightarrow> u64 \<Rightarrow> u64 res" where
  "obj_rtti c m obj = load64 m (field (Object c) ''rtti'' obj)"

definition obj_lock_word :: "'a build_scheme \<Rightarrow> mem \<Rightarrow> u64 \<Rightarrow> u64 res" where
  "obj_lock_word c m obj = load64 m (field (Object c) ''lock_word'' obj)"

text \<open>\<open>(*rtti).rt.id\<close>, \<open>(*rtti).rt.lock_word\<close>, \<open>(*rtti).size\<close> and \<open>(*rtti).ref_map_struct\<close>.\<close>

definition rtti_id :: "'a build_scheme \<Rightarrow> mem \<Rightarrow> u64 \<Rightarrow> i32 res" where
  "rtti_id c m r = load32 m (field (Runtime c) ''id'' (field (Rtti c) ''rt'' r))"

definition rtti_lock_word_addr :: "'a build_scheme \<Rightarrow> u64 \<Rightarrow> u64" where
  "rtti_lock_word_addr c r = field (Runtime c) ''lock_word'' (field (Rtti c) ''rt'' r)"

definition rtti_size :: "'a build_scheme \<Rightarrow> mem \<Rightarrow> u64 \<Rightarrow> i32 res" where
  "rtti_size c m r = load32 m (field (Rtti c) ''size'' r)"

definition rtti_ref_map :: "'a build_scheme \<Rightarrow> mem \<Rightarrow> u64 \<Rightarrow> u64 res" where
  "rtti_ref_map c m r = load64 m (field (Rtti c) ''ref_map_struct'' r)"

definition array_length :: "'a build_scheme \<Rightarrow> mem \<Rightarrow> u64 \<Rightarrow> i32 res" where
  "array_length c m obj = load32 m (field (ArrayHeader c) ''length'' obj)"

definition array_stride :: "'a build_scheme \<Rightarrow> mem \<Rightarrow> u64 \<Rightarrow> i32 res" where
  "array_stride c m obj = load32 m (field (ArrayHeader c) ''stride'' obj)"


section \<open>Kinds and sizes\<close>

definition in_id_range :: "i32 \<Rightarrow> i32 \<Rightarrow> i32 \<Rightarrow> bool" where
  "in_id_range lo hi i \<longleftrightarrow> sint lo \<le> sint i \<and> sint i \<le> sint hi"

definition is_array :: "'a upcalls_scheme \<Rightarrow> mem \<Rightarrow> u64 \<Rightarrow> bool res" where
  "is_array c m obj =
     bindR (obj_rtti c m obj) (\<lambda>rtti.
     bindR (debug_assert c (is_ptr_aligned c rtti)) (\<lambda>_.
     bindR (rtti_id c m rtti) (\<lambda>i.
     Ok (in_id_range (get_array_ids_min c) (get_array_ids_max c) i))))"

definition is_array_for_copy :: "'a upcalls_scheme \<Rightarrow> mem \<Rightarrow> u64 \<Rightarrow> bool res" where
  "is_array_for_copy c m obj =
     bindR (obj_rtti c m obj) (\<lambda>w.
     bindR (align_ptr c w) (\<lambda>rtti.
     bindR (rtti_id c m rtti) (\<lambda>i.
     Ok (in_id_range (get_array_ids_min c) (get_array_ids_max c) i))))"

definition as_array_object :: "u64 \<Rightarrow> u64" where
  "as_array_object obj = obj"

definition array_size :: "'a upcalls_scheme \<Rightarrow> mem \<Rightarrow> u64 \<Rightarrow> u64 res" where
  "array_size c m a =
     bindR (array_length c m a) (\<lambda>len.
     bindR (array_stride c m a) (\<lambda>stride.
     bindR (mul_u (dbg c) (scast len) (scast stride)) (\<lambda>n.
     bindR (add_u (dbg c) (of_nat (size_of (ArrayHeader c))) n) (\<lambda>n.
     round_to_next_multiple c n (get_allocation_alignment c)))))"

definition obj_size :: "'a upcalls_scheme \<Rightarrow> mem \<Rightarrow> u64 \<Rightarrow> u64 res" where
  "obj_size c m obj =
     bindR (is_array c m obj) (\<lambda>b.
     if b then array_size c m (as_array_object obj)
     else bindR (obj_rtti c m obj) (\<lambda>rtti.
          bindR (rtti_size c m rtti) (\<lambda>n.
          round_to_next_multiple c (scast n) (get_allocation_alignment c))))"

definition size_for_copy :: "'a upcalls_scheme \<Rightarrow> mem \<Rightarrow> u64 \<Rightarrow> u64 res" where
  "size_for_copy c m obj =
     bindR (obj_rtti c m obj) (\<lambda>w.
     bindR (align_ptr c w) (\<lambda>rtti.
     bindR (is_array_for_copy c m obj) (\<lambda>b.
     if b then array_size c m (as_array_object obj)
     else bindR (rtti_size c m rtti) (\<lambda>n.
          round_to_next_multiple c (scast n) (get_allocation_alignment c)))))"

definition is_weak_reference :: "'a upcalls_scheme \<Rightarrow> mem \<Rightarrow> u64 \<Rightarrow> bool res" where
  "is_weak_reference c m obj =
     bindR (obj_rtti c m obj) (\<lambda>rtti.
     bindR (rtti_id c m rtti) (\<lambda>i.
     Ok (in_id_range (get_weak_ref_ids_min c) (get_weak_ref_ids_max c) i)))"

definition is_referant_of_weak_reference ::
    "'a upcalls_scheme \<Rightarrow> mem \<Rightarrow> u64 \<Rightarrow> i32 \<Rightarrow> bool res" where
  "is_referant_of_weak_reference c m obj field_offset =
     bindR (is_weak_reference c m obj) (\<lambda>b. Ok (b \<and> field_offset = get_weak_ref_field_offset c))"


section \<open>Field and element addresses\<close>

definition get_fields :: "'a build_scheme \<Rightarrow> u64 \<Rightarrow> u64 res" where
  "get_fields c obj =
     bindR (add_u (dbg c) obj (of_nat (size_of Ptr))) (\<lambda>fields.
     if uses_lockword c then add_u (dbg c) fields (of_nat (size_of Ptr)) else Ok fields)"

definition get_field_address :: "'a build_scheme \<Rightarrow> u64 \<Rightarrow> u64 res" where
  "get_field_address c obj =
     bindR (if uses_lockword c then add_u (dbg c) (of_nat (size_of Ptr)) (of_nat (size_of Ptr))
            else Ok (of_nat (size_of Ptr))) (\<lambda>base_size.
     add_u (dbg c) obj base_size)"

definition get_element_address :: "'a build_scheme \<Rightarrow> mem \<Rightarrow> u64 \<Rightarrow> i32 \<Rightarrow> u64 res" where
  "get_element_address c m a index =
     bindR (add_u (dbg c) a (of_nat (size_of (ArrayHeader c)))) (\<lambda>b.
     bindR (array_stride c m a) (\<lambda>stride.
     bindR (mul_u (dbg c) (scast index) (scast stride)) (\<lambda>n. add_u (dbg c) b n)))"

text \<open>
  The walk over a reference map: entry \<open>i\<close> is read at \<open>ptr_map.offset(i)\<close>, the walk
  ends at \<open>LAST_FIELD_OFFSET\<close>. \<open>pointer::offset\<close> bounds the index, so the loop ends.
\<close>

function num_fields_loop :: "mem \<Rightarrow> u64 \<Rightarrow> int \<Rightarrow> int res" where
  "num_fields_loop m ptr_map i =
     bindR (ptr_offset ptr_map i) (\<lambda>a.
     bindR (load64 m a) (\<lambda>off.
     if off = LAST_FIELD_OFFSET then Ok i else num_fields_loop m ptr_map (i + 1)))"
  by pat_completeness auto
termination
  by (relation "measure (\<lambda>(m, p, i). nat (2 ^ 60 - i))") (auto dest!: ptr_offset_eq_Ok)

declare num_fields_loop.simps [simp del]

definition num_fields :: "'a build_scheme \<Rightarrow> mem \<Rightarrow> u64 \<Rightarrow> u64 res" where
  "num_fields c m obj =
     bindR (obj_rtti c m obj) (\<lambda>rtti.
     bindR (rtti_ref_map c m rtti) (\<lambda>ptr_map.
     bindR (num_fields_loop m ptr_map 0) (\<lambda>i. Ok (word_of_int i))))"

text \<open>The same walk with a body, as the iterations over an object's fields have it.\<close>

function ref_map_loop ::
    "('s \<Rightarrow> mem) \<Rightarrow> u64 \<Rightarrow> (i64 \<Rightarrow> 's \<Rightarrow> 's res) \<Rightarrow> int \<Rightarrow> 's \<Rightarrow> 's res" where
  "ref_map_loop memory ptr_map body i s =
     bindR (ptr_offset ptr_map i) (\<lambda>a.
     bindR (load64 (memory s) a) (\<lambda>off.
     if off = LAST_FIELD_OFFSET then Ok s
     else bindR (body off s) (\<lambda>s'. ref_map_loop memory ptr_map body (i + 1) s')))"
  by pat_completeness auto
termination
  by (relation "measure (\<lambda>(g, p, b, i, s). nat (2 ^ 60 - i))") (auto dest!: ptr_offset_eq_Ok)

declare ref_map_loop.simps [simp del]


section \<open>Lock words\<close>

definition field_is_inflated_lock :: "u64 \<Rightarrow> bool" where
  "field_is_inflated_lock f \<longleftrightarrow> f AND MONITOR_INFLATION_MARK_MASK \<noteq> 0"

definition field_alligned_lock_ref :: "u64 \<Rightarrow> u64" where
  "field_alligned_lock_ref f = f AND MONITOR_OBJECT_MASK"

definition field_inflate_lock_ref :: "u64 \<Rightarrow> u64" where
  "field_inflate_lock_ref f = f OR MONITOR_INFLATION_MARK_MASK"


section \<open>The thread-local record of GC threads\<close>

definition GC_THREAD_KIND_CONTROLLER :: i32 where
  "GC_THREAD_KIND_CONTROLLER = 0"

definition GC_THREAD_KIND_WORKER :: i32 where
  "GC_THREAD_KIND_WORKER = 1"

record gc_thread_tls =
  kind :: i32
  gc_context :: u64

definition tls_new :: "i32 \<Rightarrow> u64 \<Rightarrow> gc_thread_tls" where
  "tls_new k ctx = \<lparr>kind = k, gc_context = ctx\<rparr>"

definition for_controller :: "u64 \<Rightarrow> gc_thread_tls" where
  "for_controller ctx = tls_new GC_THREAD_KIND_CONTROLLER ctx"

definition for_worker :: "u64 \<Rightarrow> gc_thread_tls" where
  "for_worker ctx = tls_new GC_THREAD_KIND_WORKER ctx"

text \<open>\<open>Box::into_raw(Box::new(tls))\<close>, with the address the allocator returned.\<close>

definition box_tls :: "mem \<Rightarrow> u64 \<Rightarrow> gc_thread_tls \<Rightarrow> mem res" where
  "box_tls m p t =
     bindR (store32 m (field GCThreadTLS ''kind'' p) (kind t)) (\<lambda>m.
     store64 m (field GCThreadTLS ''gc_context'' p) (gc_context t))"

definition from_vwt :: "u64 \<Rightarrow> u64" where
  "from_vwt vwt = vwt"

definition to_vwt :: "u64 \<Rightarrow> u64" where
  "to_vwt ptr = ptr"

definition check_cast :: "'a build_scheme \<Rightarrow> mem \<Rightarrow> u64 \<Rightarrow> u64 res" where
  "check_cast c m ptr =
     bindR (debug_assert c (Ok (ptr \<noteq> 0))) (\<lambda>_.
     bindR (debug_assert c (bindR (load32 m (field GCThreadTLS ''kind'' ptr)) (\<lambda>k.
       Ok (k = GC_THREAD_KIND_CONTROLLER \<or> k = GC_THREAD_KIND_WORKER)))) (\<lambda>_.
     Ok ptr))"

definition from_vwt_check :: "'a build_scheme \<Rightarrow> mem \<Rightarrow> u64 \<Rightarrow> u64 res" where
  "from_vwt_check c m vwt = check_cast c m (from_vwt vwt)"

definition from_upcall_check :: "'a upcalls_scheme \<Rightarrow> mem \<Rightarrow> u64 res" where
  "from_upcall_check c m = check_cast c m (get_gc_thread_tls c)"

definition worker :: "'a build_scheme \<Rightarrow> mem \<Rightarrow> u64 \<Rightarrow> u64 res" where
  "worker c m tls =
     bindR (debug_assert c (bindR (load32 m (field GCThreadTLS ''kind'' tls)) (\<lambda>k.
       Ok (k = GC_THREAD_KIND_WORKER)))) (\<lambda>_.
     load64 m (field GCThreadTLS ''gc_context'' tls))"


section \<open>Rounding\<close>

lemma round_up:
  assumes "multiple \<noteq> 0" "unat value + unat multiple < 2 ^ 64"
  shows "\<exists>r. round_to_next_multiple c value multiple = Ok r \<and>
    unat multiple dvd unat r \<and> unat value \<le> unat r \<and>
    (\<forall>q. unat multiple dvd q \<and> unat value \<le> q \<longrightarrow> unat r \<le> q)"
proof -
  let ?v = "unat value" and ?m = "unat multiple"
  let ?t = "value + multiple - 1"
  have m: "0 < ?m" using assms(1) by (simp add: unat_gt_0)
  have s: "unat (value + multiple) = ?v + ?m"
    using assms(2) by (simp add: unat_word_ariths)
  have t: "unat ?t = ?v + ?m - 1"
    using m s by (simp add: unat_sub word_le_nat_alt)
  have q: "unat (?t div multiple) = (?v + ?m - 1) div ?m"
    using t by (simp add: unat_div)
  have le: "(?v + ?m - 1) div ?m * ?m \<le> ?v + ?m - 1" by simp
  then have fits: "unat (?t div multiple) * ?m < 2 ^ 64"
    unfolding q using assms(2) m by linarith
  let ?r = "?t div multiple * multiple"
  have r: "unat ?r = (?v + ?m - 1) div ?m * ?m"
    using fits q by (simp add: unat_word_ariths)
  have "round_to_next_multiple c value multiple = Ok ?r"
    using assms m s fits by (simp add: round_to_next_multiple_def)
  moreover have "?v \<le> unat ?r"
    using align_to_ge [OF m, of ?v] by (simp add: r align_to_def)
  moreover have "unat ?r \<le> q" if q: "?m dvd q" "?v \<le> q" for q
  proof -
    obtain k where k: "q = ?m * k" using q(1) by (auto simp: dvd_def)
    have "(?v + ?m - 1) div ?m \<le> (?m * k + (?m - 1)) div ?m"
      using q(2) k m by (intro div_le_mono) simp
    also have "\<dots> = k" by (rule div_nat_eqI) (use m in auto)
    finally have "(?v + ?m - 1) div ?m * ?m \<le> k * ?m" by (rule mult_le_mono1)
    then show ?thesis unfolding r k by (simp only: mult.commute [of k])
  qed
  ultimately show ?thesis by (auto simp: r)
qed

text \<open>
  Rounding a size to the next multiple returns the least multiple that is not below
  it, in both profiles, whenever the sum of the two fits a \<open>usize\<close>.
\<close>

lemma round_to_next_multiple_least:
  assumes "multiple \<noteq> 0" "unat value + unat multiple < 2 ^ 64"
  shows "\<exists>r. round_to_next_multiple c value multiple = Ok r \<and>
    unat multiple dvd unat r \<and> unat value \<le> unat r \<and>
    (\<forall>q. unat multiple dvd q \<and> unat value \<le> q \<longrightarrow> unat r \<le> q)"
  using assms by (rule round_up)

lemma round_to_next_multiple_zero:
  "\<not> dbg c \<Longrightarrow> round_to_next_multiple c value 0 = Err Div_zero"
  by (simp add: round_to_next_multiple_def div_u_def)

lemma round_to_next_multiple_overflow:
  assumes "dbg c" "2 ^ 64 \<le> unat value + unat multiple"
  shows "round_to_next_multiple c value multiple = Err Overflow"
  using assms by (simp add: round_to_next_multiple_def add_u_def)


section \<open>Sizes while the header carries forwarding bits\<close>

lemma alignment_pow2_take_bit:
  "alignment_log c k \<Longrightarrow> is_ptr_aligned c r = Ok True \<Longrightarrow> take_bit k r = 0"
  by (simp add: ptr_simps)

text \<open>Reading an object back after only its header word was rewritten.\<close>

lemma header_store_frame:
  assumes st: "store64 m obj w = Ok m'"
  shows "obj_rtti c m' obj = Ok w"
    and "array_length c m' obj = array_length c m obj"
    and "array_stride c m' obj = array_stride c m obj"
    and "apart obj 8 rtti (size_of (Rtti c)) \<Longrightarrow> rtti_id c m' rtti = rtti_id c m rtti"
    and "apart obj 8 rtti (size_of (Rtti c)) \<Longrightarrow> rtti_size c m' rtti = rtti_size c m rtti"
proof -
  show "obj_rtti c m' obj = Ok w"
    using load64_store64_same [OF st] by (simp add: obj_rtti_def)
  have "apart obj 8 (obj + n) 4" if "n \<in> {8, 12, 16, 20}" for n
    using that by (auto simp: apart_def)
  then show "array_length c m' obj = array_length c m obj" "array_stride c m' obj = array_stride c m obj"
    using load32_store64_apart [OF st] by (simp_all add: array_length_def array_stride_def)
  show "rtti_id c m' rtti = rtti_id c m rtti"
    and "rtti_size c m' rtti = rtti_size c m rtti" if "apart obj 8 rtti (size_of (Rtti c))"
    using that load32_store64_apart [OF st]
      apart_part [OF that, of 16 4] apart_part [OF that, of 8 4]
      apart_part [OF that, of 32 4] apart_part [OF that, of 24 4]
    by (auto simp: rtti_id_def rtti_size_def split: if_splits)
qed

text \<open>
  While mmtk-core keeps forwarding bits in the header word, \<open>size_for_copy\<close> still
  returns the size the object had with a clean header: the type pointer is recovered
  by masking, for every value of the bits below the allocation alignment.
\<close>

lemma size_for_copy_forwarded:
  assumes "alignment_log c k"
    and "obj_rtti c m obj = Ok rtti" "take_bit k rtti = 0"
    and "obj_size c m obj = Ok n"
    and "take_bit k bits = bits"
    and "store64 m obj (rtti OR bits) = Ok m'"
    and "apart obj 8 rtti (size_of (Rtti c))"
  shows "size_for_copy c m' obj = Ok n"
proof -
  note frame = header_store_frame [OF assms(6), where c = c]
  have clean: "align_ptr c (rtti OR bits) = Ok rtti"
    using assms(1,3,5) by (simp add: ptr_simps aligned_or_low)
  obtain b where b: "is_array c m obj = Ok b"
    using assms(4) by (auto simp: obj_size_def)
  then have b': "is_array_for_copy c m' obj = Ok b"
    using assms(2) frame(1,4) assms(7) clean
    by (auto simp: is_array_def is_array_for_copy_def)
  have "array_size c m' obj = array_size c m obj"
    by (simp add: array_size_def frame(2,3))
  then show ?thesis
    using assms(2,4,7) b b' clean frame(1,5)
    by (auto simp: obj_size_def size_for_copy_def as_array_object_def split: if_splits)
qed


text \<open>Words of concrete structures, for memories written down as tables.\<close>

definition rtti_words :: "u64 \<Rightarrow> u64 \<Rightarrow> u64 \<Rightarrow> u64 \<Rightarrow> (u64 \<times> u64) list" where
  "rtti_words r i n ref_map =
     [(r, 0), (r + 8, 0), (r + 16, i), (r + 24, 0), (r + 32, n), (r + 40, ref_map)]"

definition obj_words :: "u64 \<Rightarrow> u64 \<Rightarrow> u64 \<Rightarrow> u64 list \<Rightarrow> (u64 \<times> u64) list" where
  "obj_words obj rtti lock fs =
     [(obj, rtti), (obj + 8, lock)] @ zip (map (\<lambda>i. obj + 16 + 8 * of_nat i) [0..<length fs]) fs"

lemmas abi_defs = obj_rtti_def obj_lock_word_def rtti_id_def rtti_size_def rtti_ref_map_def
  rtti_lock_word_addr_def array_length_def array_stride_def in_id_range_def is_array_def
  is_array_for_copy_def as_array_object_def array_size_def obj_size_def size_for_copy_def
  is_weak_reference_def is_referant_of_weak_reference_def round_to_next_multiple_def
  aligned8_def rtti_words_def obj_words_def

lemma mask_numeral_15: "(mask 4 :: u64) = 15"
  by (simp add: mask_eq_exp_minus_1)

lemma sample_alignment [simp]: "alignment_log sample_cfg 4"
  by (simp add: alignment_log_def)

lemma sample_ptr_simps [simp]:
  "align_ptr sample_cfg p = Ok (p AND NOT 15)" "is_ptr_aligned sample_cfg p = Ok (p AND 15 = 0)"
  by (simp_all add: ptr_simps [OF sample_alignment] mask_numeral_15 take_bit_eq_mask)

text \<open>
  Where debug assertions are on, \<open>size\<close> refuses a header that carries forwarding
  bits: it panics instead of following the tagged type pointer.
\<close>

lemma obj_size_forwarded_panics:
  assumes "alignment_log c k" "dbg c"
    and "obj_rtti c m obj = Ok (rtti OR bits)" "take_bit k rtti = 0" "take_bit k bits = bits" "bits \<noteq> 0"
  shows "obj_size c m obj = Err Assert_failed"
proof -
  have "(rtti OR bits) AND NOT (mask k) = rtti"
    using assms(4,5) by (rule aligned_or_low)
  moreover have "rtti OR bits \<noteq> rtti"
  proof
    assume same: "rtti OR bits = rtti"
    have "bits = take_bit k bits" using assms(5) by simp
    also have "\<dots> = take_bit k (rtti OR bits)" using assms(4) by simp
    also have "\<dots> = 0" using same assms(4) by simp
    finally show False using assms(6) by simp
  qed
  ultimately have "take_bit k (rtti OR bits) \<noteq> 0"
    using and_not_mask_self [of "rtti OR bits" k] by auto
  then show ?thesis
    using assms(1-3) by (simp add: obj_size_def is_array_def ptr_simps)
qed

section \<open>Addresses inside an object\<close>

text \<open>
  The two ways the code computes where an object's fields start agree with each
  other and with the layout of \<open>Object\<close>.
\<close>

lemma field_addresses_agree:
  assumes "unat obj + size_of (Object c) < 2 ^ 64"
  shows "get_fields c obj = Ok (field (Object c) ''fields'' obj) \<and>
    get_field_address c obj = Ok (field (Object c) ''fields'' obj)"
proof -
  have f: "field (Object c) ''fields'' obj = obj + (if uses_lockword c then 16 else 8)"
    by (simp add: field_def layout_defs)
  have "unat (obj + 8) = unat obj + 8"
    using assms by (simp add: unat_word_ariths split: if_splits)
  then show ?thesis
    using assms unfolding f by (auto simp: get_fields_def get_field_address_def)
qed

text \<open>The size of an array, read off its header, when nothing overflows.\<close>

definition array_bytes :: "'a build_scheme \<Rightarrow> i32 \<Rightarrow> i32 \<Rightarrow> nat" where
  "array_bytes c len stride = size_of (ArrayHeader c) + nat (sint len) * nat (sint stride)"

lemma unat_scast_pos: "0 \<le> sint (i :: i32) \<Longrightarrow> unat (scast i :: u64) = nat (sint i)"
proof -
  assume i: "0 \<le> sint i"
  have "sint i < 2 ^ 31" using sint_lt [of i] by simp
  then have "(scast i :: u64) = of_nat (nat (sint i))" using i by simp
  moreover have "nat (sint i) < 2 ^ 64" using \<open>sint i < 2 ^ 31\<close> i by simp
  ultimately show ?thesis by (simp only: unat_of_nat64)
qed

lemma nat_sint_less: "nat (sint (i :: i32)) < 2 ^ 31"
  using sint_lt [of i] by (cases "0 \<le> sint i") auto

lemma nat_sint_mult_less: "nat (sint (i :: i32)) * nat (sint (j :: i32)) < 2 ^ 62"
proof -
  have "nat (sint i) * nat (sint j) \<le> (2 ^ 31 - 1) * (2 ^ 31 - 1)"
    using nat_sint_less [of i] nat_sint_less [of j] by (intro mult_mono) auto
  then show ?thesis by simp
qed

text \<open>
  C22. The computed size of an array covers its header and all its elements, and every
  element address \<open>get_element_address\<close> returns lies, with its whole stride, inside the
  object.
\<close>

theorem array_elements_inside:
  assumes "alignment_log c k" "k \<le> 6"
    and "array_length c m a = Ok len" "array_stride c m a = Ok stride"
    and "0 \<le> sint stride" "0 \<le> sint i" "sint i < sint len"
    and "unat a + array_bytes c len stride < 2 ^ 64"
  shows "\<exists>n e. array_size c m a = Ok n \<and> get_element_address c m a i = Ok e \<and>
    unat e = unat a + size_of (ArrayHeader c) + nat (sint i) * nat (sint stride) \<and>
    unat e + nat (sint stride) \<le> unat a + unat n"
proof -
  let ?h = "size_of (ArrayHeader c)" and ?L = "nat (sint len)" and ?S = "nat (sint stride)" and ?I = "nat (sint i)"
  let ?n = "of_nat ?h + scast len * scast stride :: u64"
  let ?e = "a + of_nat ?h + scast i * scast stride :: u64"
  have pos: "unat (scast len :: u64) = ?L" "unat (scast stride :: u64) = ?S" "unat (scast i :: u64) = ?I"
    using assms(5-7) by (simp_all only: unat_scast_pos)
  have h: "?h \<le> 24" "unat (of_nat ?h :: u64) = ?h" by auto
  have LS: "?L * ?S < 2 ^ 62" by (rule nat_sint_mult_less)
  have IS: "Suc ?I * ?S \<le> ?L * ?S" using assms(6,7) by (intro mult_le_mono1) simp
  have mult: "unat (scast len * scast stride :: u64) = ?L * ?S"
    "unat (scast i * scast stride :: u64) = ?I * ?S"
    using LS IS pos by (simp_all add: unat_word_ariths)
  have n: "unat ?n = ?h + ?L * ?S"
    using LS h mult by (simp add: unat_word_ariths)
  have ah: "unat (a + of_nat ?h) = unat a + ?h"
    using assms(8) h by (simp add: unat_word_ariths array_bytes_def)
  have e: "unat ?e = unat a + ?h + ?I * ?S"
    using assms(8) IS ah mult by (simp add: unat_word_ariths array_bytes_def)
  have al: "unat (get_allocation_alignment c) = 2 ^ k" "(2 :: nat) ^ k \<le> 2 ^ 6"
    using alignment_log_unat [OF assms(1)] power_increasing [OF assms(2), of "2 :: nat"] by auto
  have "get_allocation_alignment c \<noteq> 0" using al(1) by auto
  moreover have "unat ?n + unat (get_allocation_alignment c) < 2 ^ 64"
    using n LS h al by simp
  ultimately obtain r where r: "round_to_next_multiple c ?n (get_allocation_alignment c) = Ok r"
    "unat ?n \<le> unat r"
    using round_up [of "get_allocation_alignment c" ?n c] by blast
  have "array_size c m a = Ok r"
    using assms(3,4) pos LS h mult r(1) n by (simp add: array_size_def)
  moreover have "get_element_address c m a i = Ok ?e"
    using assms(4,8) pos IS LS h ah mult e by (simp add: get_element_address_def array_bytes_def)
  ultimately show ?thesis
    using e r(2) n IS by (auto intro!: exI simp: algebra_simps)
qed


text \<open>The words of an array header (with lock words) of a given length and stride.\<close>

definition array_words :: "u64 \<Rightarrow> u64 \<Rightarrow> u64 \<Rightarrow> u64 \<Rightarrow> u64 list \<Rightarrow> (u64 \<times> u64) list" where
  "array_words a rtti len stride es =
     [(a, rtti), (a + 8, 0), (a + 16, len OR push_bit 32 stride)] @
     zip (map (\<lambda>i. a + 24 + 8 * of_nat i) [0..<length es]) es"

theorem array_elements_inside_witness:
  "\<exists>n e. array_size sample_cfg (word_mem (array_words 0x10000 0x1000 3 8 [0, 0, 0])) 0x10000 = Ok n \<and>
    get_element_address sample_cfg (word_mem (array_words 0x10000 0x1000 3 8 [0, 0, 0])) 0x10000 2 = Ok e \<and>
    unat e = unat (0x10000 :: u64) + size_of (ArrayHeader sample_cfg) + nat (sint (2 :: i32)) * nat (sint (8 :: i32)) \<and>
    unat e + nat (sint (8 :: i32)) \<le> unat (0x10000 :: u64) + unat n"
  by (rule array_elements_inside [where k = 4 and len = 3])
     (simp_all add: abi_defs array_words_def array_bytes_def)


section \<open>Reference maps\<close>

text \<open>
  The reference map at \<open>p\<close> holds the offsets \<open>offs\<close>, ended by \<open>LAST_FIELD_OFFSET\<close>,
  inside the address space.
\<close>

fun ref_map_from :: "mem \<Rightarrow> u64 \<Rightarrow> i64 list \<Rightarrow> bool" where
  "ref_map_from m a [] \<longleftrightarrow> load64 m a = Ok LAST_FIELD_OFFSET"
| "ref_map_from m a (off # offs) \<longleftrightarrow>
     load64 m a = Ok off \<and> off \<noteq> LAST_FIELD_OFFSET \<and> ref_map_from m (a + 8) offs"

definition ref_map :: "mem \<Rightarrow> u64 \<Rightarrow> i64 list \<Rightarrow> bool" where
  "ref_map m p offs \<longleftrightarrow>
     length offs < 2 ^ 60 \<and> unat p + 8 * length offs < 2 ^ 64 \<and> ref_map_from m p offs"

lemma ref_map_from_entry:
  assumes "ref_map_from m a offs" "i \<le> length offs"
  shows "load64 m (a + 8 * of_nat i) = Ok (if i < length offs then offs ! i else LAST_FIELD_OFFSET)"
    and "i < length offs \<Longrightarrow> offs ! i \<noteq> LAST_FIELD_OFFSET"
  using assms
proof (induction offs arbitrary: a i)
  case Nil
  case 1
  then show ?case by simp
next
  case Nil
  case 2
  then show ?case by simp
next
  case (Cons off offs)
  case 1
  then show ?case using Cons(1) [of "a + 8" "i - 1"] by (cases i) (auto simp: algebra_simps)
next
  case (Cons off offs)
  case 2
  then show ?case using Cons(2) [of "i - 1" "a + 8"] by (cases i) auto
qed

lemma ref_map_entry:
  assumes "ref_map m p offs" "i \<le> length offs"
  shows "ptr_offset p (int i) = Ok (p + 8 * of_nat i)"
    and "load64 m (p + 8 * of_nat i) = Ok (if i < length offs then offs ! i else LAST_FIELD_OFFSET)"
    and "i < length offs \<Longrightarrow> offs ! i \<noteq> LAST_FIELD_OFFSET"
  using assms ref_map_from_entry [of m p offs i] by (auto simp: ref_map_def intro!: ptr_offset_nat)

lemma num_fields_loop_ref_map:
  assumes "ref_map m p offs" "i \<le> length offs"
  shows "num_fields_loop m p (int i) = Ok (int (length offs))"
  using assms(2)
proof (induction "length offs - i" arbitrary: i)
  case 0
  then have "i = length offs" by simp
  then show ?case
    using ref_map_entry [OF assms(1), of i] by (subst num_fields_loop.simps) simp
next
  case (Suc k)
  then have "num_fields_loop m p (int (Suc i)) = Ok (int (length offs))" by (intro Suc.hyps) auto
  then show ?case
    using Suc.prems Suc.hyps(2) ref_map_entry [OF assms(1), of i]
    by (subst num_fields_loop.simps) (simp add: algebra_simps)
qed

text \<open>
  A walk over a reference map whose body keeps the map in place runs the body on its
  entries, in order.
\<close>

lemma ref_map_loop_from:
  assumes map: "\<And>t. I t \<Longrightarrow> ref_map (memory t) p offs"
    and body: "\<And>off t t'. off \<in> set offs \<Longrightarrow> I t \<Longrightarrow> body off t = Ok t' \<Longrightarrow> I t'"
    and "I s" "i \<le> length offs"
  shows "ref_map_loop memory p body (int i) s = foldR body (drop i offs) s"
  using assms(3,4)
proof (induction "length offs - i" arbitrary: i s)
  case 0
  then have "i = length offs" by simp
  then show ?case
    using ref_map_entry [OF map [OF 0(2)], of i] by (subst ref_map_loop.simps) simp
next
  case (Suc k)
  then have i: "i < length offs" by simp
  have "bindR (body (offs ! i) s) (ref_map_loop memory p body (int (Suc i)))
      = bindR (body (offs ! i) s) (foldR body (drop (Suc i) offs))"
  proof (rule bindR_cong [OF refl])
    fix t assume "body (offs ! i) s = Ok t"
    then have "I t" using body nth_mem [OF i] Suc.prems(1) by blast
    then show "ref_map_loop memory p body (int (Suc i)) t = foldR body (drop (Suc i) offs) t"
      using Suc.hyps i by (intro Suc.hyps(1)) auto
  qed
  then show ?case
    using i ref_map_entry [OF map [OF Suc.prems(1)], of i]
    by (subst ref_map_loop.simps) (simp add: Cons_nth_drop_Suc [symmetric] algebra_simps)
qed

lemmas ref_map_loop_foldR = ref_map_loop_from [where i = 0, simplified]

text \<open>
  The entries before an end of any kind: the walk runs the body on them and goes on behind them.
\<close>

definition map_prefix :: "mem \<Rightarrow> u64 \<Rightarrow> i64 list \<Rightarrow> bool" where
  "map_prefix m p offs \<longleftrightarrow> length offs < 2 ^ 60 \<and> unat p + 8 * length offs < 2 ^ 64 \<and>
     (\<forall>i<length offs. load64 m (p + 8 * of_nat i) = Ok (offs ! i) \<and> offs ! i \<noteq> LAST_FIELD_OFFSET)"

lemma ref_map_loop_prefix:
  assumes map: "\<And>t. I t \<Longrightarrow> map_prefix (memory t) p offs"
    and body: "\<And>off t t'. off \<in> set offs \<Longrightarrow> I t \<Longrightarrow> body off t = Ok t' \<Longrightarrow> I t'"
    and "I s" "i \<le> length offs"
  shows "ref_map_loop memory p body (int i) s =
    bindR (foldR body (drop i offs) s) (ref_map_loop memory p body (int (length offs)))"
  using assms(3,4)
proof (induction "length offs - i" arbitrary: i s)
  case 0
  then have "i = length offs" by simp
  then show ?case by simp
next
  case (Suc k)
  then have i: "i < length offs" by simp
  have "ptr_offset p (int i) = Ok (p + 8 * of_nat i)" "load64 (memory s) (p + 8 * of_nat i) = Ok (offs ! i)" "offs ! i \<noteq> LAST_FIELD_OFFSET"
    using map [OF Suc.prems(1)] i by (auto simp: map_prefix_def intro!: ptr_offset_nat)
  moreover have "bindR (body (offs ! i) s) (ref_map_loop memory p body (int (Suc i))) =
      bindR (body (offs ! i) s) (\<lambda>t. bindR (foldR body (drop (Suc i) offs) t) (ref_map_loop memory p body (int (length offs))))"
  proof (rule bindR_cong [OF refl])
    fix t assume "body (offs ! i) s = Ok t"
    then have "I t" using body nth_mem [OF i] Suc.prems(1) by blast
    then show "ref_map_loop memory p body (int (Suc i)) t =
        bindR (foldR body (drop (Suc i) offs) t) (ref_map_loop memory p body (int (length offs)))"
      using Suc.hyps i by (intro Suc.hyps(1)) auto
  qed
  ultimately show ?case
    using i by (subst ref_map_loop.simps) (simp add: Cons_nth_drop_Suc [symmetric] algebra_simps bindR_assoc)
qed

text \<open>And it comes to an end without an error only at a terminator.\<close>

lemma ref_map_loop_Ok:
  assumes "ref_map_loop memory p body i s = Ok s'" "0 \<le> i"
    and "\<And>off t t'. body off t = Ok t' \<Longrightarrow> memory t' = memory t \<and> Q off"
  shows "\<exists>offs. i + int (length offs) < 2 ^ 60 \<and> uint p + 8 * (i + int (length offs)) < 2 ^ 64 \<and>
    ref_map_from (memory s) (p + 8 * word_of_int i) offs \<and> list_all Q offs \<and> memory s' = memory s"
  using assms(1,2)
proof (induction "nat (2 ^ 60 - i)" arbitrary: i s rule: less_induct)
  case less
  obtain a off where a: "ptr_offset p i = Ok a" "load64 (memory s) a = Ok off"
    and rest: "(if off = LAST_FIELD_OFFSET then Ok s
      else bindR (body off s) (\<lambda>t. ref_map_loop memory p body (i + 1) t)) = Ok s'"
    using less.prems(1) by (subst (asm) ref_map_loop.simps) auto
  have bounds: "i < 2 ^ 60" "uint p + 8 * i < 2 ^ 64" "a = p + 8 * word_of_int i"
    using a(1) by (auto simp: ptr_offset_def split: if_splits)
  show ?case
  proof (cases "off = LAST_FIELD_OFFSET")
    case True
    then show ?thesis using a(2) bounds rest by (intro exI [of _ "[]"]) simp
  next
    case False
    then obtain t where t: "body off s = Ok t" "ref_map_loop memory p body (i + 1) t = Ok s'"
      using rest by auto
    have "nat (2 ^ 60 - (i + 1)) < nat (2 ^ 60 - i)" using bounds(1) by simp
    from less.hyps [OF this t(2)] less.prems(2) assms(3) [OF t(1)]
    obtain offs where "i + 1 + int (length offs) < 2 ^ 60" "uint p + 8 * (i + 1 + int (length offs)) < 2 ^ 64"
      "ref_map_from (memory s) (p + 8 * word_of_int (i + 1)) offs" "list_all Q offs" "Q off" "memory s' = memory s"
      by auto
    then show ?thesis
      using a(2) bounds(3) False by (intro exI [of _ "off # offs"]) (auto simp: algebra_simps)
  qed
qed

lemma ref_map_loop_terminated:
  assumes "ref_map_loop memory p body 0 s = Ok s'"
    and "\<And>off t t'. body off t = Ok t' \<Longrightarrow> memory t' = memory t \<and> Q off"
  shows "memory s' = memory s" "\<exists>offs. ref_map (memory s) p offs \<and> list_all Q offs"
proof -
  obtain offs where "int (length offs) < 2 ^ 60" "uint p + 8 * int (length offs) < 2 ^ 64"
    "ref_map_from (memory s) p offs" "list_all Q offs" and m: "memory s' = memory s"
    using ref_map_loop_Ok [OF assms(1) _ assms(2)] by fastforce
  moreover from this have "int (unat p + 8 * length offs) < 2 ^ 64" unfolding uint_nat by linarith
  ultimately show "\<exists>offs. ref_map (memory s) p offs \<and> list_all Q offs"
    unfolding ref_map_def of_nat_less_numeral_power_cancel_iff by blast
  show "memory s' = memory s" by (rule m)
qed

text \<open>
  \<open>num_fields\<close> ends on every memory, and on a terminated reference map it returns
  the number of its entries.
\<close>

lemma num_fields_counts:
  assumes "obj_rtti c m obj = Ok rtti" "rtti_ref_map c m rtti = Ok p" "ref_map m p offs"
  shows "num_fields c m obj = Ok (of_nat (length offs))"
  using assms num_fields_loop_ref_map [OF assms(3), of 0] by (simp add: num_fields_def)

section \<open>Lock words\<close>

lemmas lock_defs = field_is_inflated_lock_def field_alligned_lock_ref_def
  field_inflate_lock_ref_def MONITOR_INFLATION_MARK_MASK_def MONITOR_OBJECT_MASK_def

text \<open>
  Inflating a lock word and reading the monitor's address back: the mark is set,
  the address is the one put in, for every even address; and the mark bit never
  changes the address that is read.
\<close>

lemma lock_word_roundtrip:
  "field_is_inflated_lock (field_inflate_lock_ref f) \<and>
   field_alligned_lock_ref (field_inflate_lock_ref f) = field_alligned_lock_ref f \<and>
   (field_is_inflated_lock f \<longleftrightarrow> field_inflate_lock_ref (field_alligned_lock_ref f) = f) \<and>
   (field_alligned_lock_ref f = f \<longleftrightarrow> \<not> field_is_inflated_lock f)"
proof -
  have one: "bit (1 :: u64) n \<longleftrightarrow> n = 0" for n by (auto simp: bit_1_iff)
  have infl: "field_is_inflated_lock g \<longleftrightarrow> bit g 0" for g
    by (simp add: lock_defs and_one_eq mod_2_eq_odd bit_0)
  have al: "bit (field_alligned_lock_ref g) n \<longleftrightarrow> n \<noteq> 0 \<and> bit g n" if "n < 64" for g n
    using that by (auto simp: lock_defs bit_simps one)
  have inf: "bit (field_inflate_lock_ref g) n \<longleftrightarrow> n = 0 \<or> bit g n" if "n < 64" for g n
    using that by (auto simp: lock_defs bit_simps one)
  have eq: "g = h \<longleftrightarrow> (\<forall>n<64. bit g n \<longleftrightarrow> bit h n)" for g h :: u64
    by (auto intro!: bit_word_eqI)
  show ?thesis
    unfolding infl eq using al inf by (auto dest: spec [where x = 0] intro!: gr0I)
qed


section \<open>GC thread records\<close>

lemma boxed_tls_checked:
  assumes "aligned8 p" "p \<noteq> 0" "box_tls m p t = Ok m'"
    and "t = for_worker ctx \<or> t = for_controller ctx"
  shows "from_vwt_check c m' (to_vwt p) = Ok p"
    and "t = for_worker ctx \<Longrightarrow> worker c m' p = Ok ctx"
proof -
  obtain m1 where m1: "store32 m p (kind t) = Ok m1" "store64 m1 (p + 8) (gc_context t) = Ok m'"
    using assms(3) by (auto simp: box_tls_def)
  have "apart (p + 8) 8 p 4" by (simp add: apart_def)
  then have "load32 m' p = load32 m1 p" using load32_store64_apart [OF m1(2)] by simp
  also have "\<dots> = Ok (kind t)" using load32_store32_same [OF m1(1)] .
  finally show "from_vwt_check c m' (to_vwt p) = Ok p" "t = for_worker ctx \<Longrightarrow> worker c m' p = Ok ctx"
    using assms(2,4) load64_store64_same [OF m1(2)]
    by (auto simp: from_vwt_check_def from_vwt_def to_vwt_def check_cast_def worker_def for_worker_def
        for_controller_def tls_new_def GC_THREAD_KIND_CONTROLLER_def GC_THREAD_KIND_WORKER_def)
qed

text \<open>
  C38. The record boxed for a worker or controller thread passes the checked cast when
  mmtk-core hands its address back, and a worker gets its own context from it.
\<close>

theorem gc_thread_tls_roundtrip:
  assumes "aligned8 p" "p \<noteq> 0" "box_tls m p t = Ok m'"
    and "t = for_worker ctx \<or> t = for_controller ctx"
  shows "from_vwt_check c m' (to_vwt p) = Ok p \<and> (t = for_worker ctx \<longrightarrow> worker c m' p = Ok ctx)"
  using boxed_tls_checked [OF assms] by blast

lemma box_tls_total:
  assumes "load32 m p = Ok a" "load64 m (p + 8) = Ok b"
  shows "\<exists>m'. box_tls m p t = Ok m'"
proof -
  obtain m1 where m1: "store32 m p (kind t) = Ok m1"
    using load32_total_store32 [OF assms(1)] by blast
  have "apart p 4 (p + 8) 8" by (simp add: apart_def)
  then have "load64 m1 (p + 8) = Ok b" using load64_store32_apart [OF m1] assms(2) by simp
  then obtain m' where "store64 m1 (p + 8) (gc_context t) = Ok m'"
    using load64_total_store by blast
  then show ?thesis using m1 by (auto simp: box_tls_def)
qed

theorem gc_thread_tls_roundtrip_witness:
  "\<exists>m'. box_tls (word_mem [(0x4000, 0), (0x4008, 0)]) 0x4000 (for_worker 7) = Ok m' \<and>
    from_vwt_check sample_cfg m' (to_vwt 0x4000) = Ok 0x4000 \<and>
    (for_worker 7 = for_worker 7 \<longrightarrow> worker sample_cfg m' 0x4000 = Ok 7)"
proof -
  let ?m = "word_mem [(0x4000, 0), (0x4008, 0)]"
  have "load32 ?m 0x4000 = Ok 0" "load64 ?m (0x4000 + 8) = Ok 0" by (simp_all add: aligned8_def)
  then obtain m' where m': "box_tls ?m 0x4000 (for_worker 7) = Ok m'"
    using box_tls_total by blast
  show ?thesis
    by (intro exI [of _ m'] conjI [OF m'] gc_thread_tls_roundtrip [OF _ _ m'])
       (simp_all add: aligned8_def)
qed

end
