(* ===== verification/Vm.thy ===== *)
theory Vm
  imports Abi
begin

text \<open>
  The state the scanning code shares: the memory, mmtk-core's state, the global
  \<open>WEAK_REF_STACK\<close> (a \<open>Vec\<close>: pushed and popped at its end), \<open>VISITED\<close>, \<open>HANDLER_FN\<close>, the
  binding's \<open>pinned_objects\<close> and the trace of the upcalls made. Every access to a global
  is under its mutex, so each is one step. \<open>binding_set\<close> says whether \<open>mmtk_init_binding\<close> has
  been called: \<open>crate::binding()\<close> panics until then (\<open>Api.binding\<close>).
\<close>

record 't vm =
  memory :: mem
  core_state :: 't
  weak_ref_stack :: "u64 list"
  visited :: bool
  handler_fn :: "u64 option"
  binding_set :: bool
  pinned_objects :: "u64 list"
  upcall_trace :: "upcall list"

definition init_vm :: "mem \<Rightarrow> 't \<Rightarrow> 't vm" where
  "init_vm m t = \<lparr>memory = m, core_state = t, weak_ref_stack = [], visited = False,
     handler_fn = None, binding_set = True, pinned_objects = [], upcall_trace = []\<rparr>"

definition weak_ref_stack_push :: "u64 \<Rightarrow> 't vm \<Rightarrow> 't vm" where
  "weak_ref_stack_push obj vm = vm\<lparr>weak_ref_stack := weak_ref_stack vm @ [obj]\<rparr>"

definition weak_ref_stack_is_empty :: "'t vm \<Rightarrow> bool" where
  "weak_ref_stack_is_empty vm \<longleftrightarrow> weak_ref_stack vm = []"

definition weak_ref_stack_pop :: "'t vm \<Rightarrow> u64 option \<times> 't vm" where
  "weak_ref_stack_pop vm =
     (if weak_ref_stack vm = [] then (None, vm)
      else (Some (last (weak_ref_stack vm)),
            vm\<lparr>weak_ref_stack := butlast (weak_ref_stack vm)\<rparr>))"

text \<open>\<open>crate::binding().pinned_objects...append(&mut ws)\<close>.\<close>

definition append_to_binding :: "u64 list \<Rightarrow> 't vm \<Rightarrow> 't vm res" where
  "append_to_binding ws vm =
     bindR (guardR Panicked (binding_set vm)) (\<lambda>_. Ok (vm\<lparr>pinned_objects := pinned_objects vm @ ws\<rparr>))"

text \<open>\<open>is_mmtk_object(addr)\<close> in the current state of mmtk-core.\<close>

definition is_object :: "'t mmtk \<Rightarrow> 't vm \<Rightarrow> u64 \<Rightarrow> bool" where
  "is_object mm vm a \<longleftrightarrow> is_mmtk_object mm (core_state vm) a"

text \<open>\<open>if (*object).is_weak_reference() { WEAK_REF_STACK...push(object) }\<close>, which every scan does.\<close>

definition push_if_weak :: "'a upcalls_scheme \<Rightarrow> u64 \<Rightarrow> 't vm \<Rightarrow> 't vm res" where
  "push_if_weak c obj vm =
     bindR (is_weak_reference c (memory vm) obj) (\<lambda>weak.
     Ok (if weak then weak_ref_stack_push obj vm else vm))"

text \<open>The tracer's \<open>trace_object\<close>, and a store to a slot.\<close>

definition trace :: "'t mmtk \<Rightarrow> u64 \<Rightarrow> 't vm \<Rightarrow> u64 \<times> 't vm" where
  "trace mm obj vm =
     (case trace_object mm obj (memory vm, core_state vm) of
        (traced, m, t) \<Rightarrow> (traced, vm\<lparr>memory := m, core_state := t\<rparr>))"

definition store_vm :: "u64 \<Rightarrow> u64 \<Rightarrow> 't vm \<Rightarrow> 't vm res" where
  "store_vm a w vm = bindR (store64 (memory vm) a w) (\<lambda>m. Ok (vm\<lparr>memory := m\<rparr>))"

definition push_weak_upd :: "u64 list \<Rightarrow> 't vm \<Rightarrow> 't vm" where
  "push_weak_upd ws vm = vm\<lparr>weak_ref_stack := weak_ref_stack vm @ ws\<rparr>"

text \<open>
  \<open>header_ok c m obj rl ol\<close>: the headers of an object and its type can be read, the lock words
  are \<open>rl\<close> (of the type) and \<open>ol\<close>, and the checks of a debug build pass.
\<close>

definition header_ok :: "'a upcalls_scheme \<Rightarrow> mem \<Rightarrow> u64 \<Rightarrow> u64 \<Rightarrow> u64 \<Rightarrow> bool" where
  "header_ok c m obj rl ol \<longleftrightarrow>
     (\<exists>rtti. obj_rtti c m obj = Ok rtti \<and> rtti \<noteq> 0 \<and>
       (uses_lockword c \<longrightarrow> load64 m (rtti_lock_word_addr c rtti) = Ok rl)) \<and>
     (uses_lockword c \<longrightarrow> obj_lock_word c m obj = Ok ol) \<and> (\<exists>b. is_weak_reference c m obj = Ok b) \<and>
     (\<exists>n. obj_size c m obj = Ok n \<and> n \<noteq> 0)"

definition weak_of :: "'a upcalls_scheme \<Rightarrow> mem \<Rightarrow> u64 list \<Rightarrow> u64 list" where
  "weak_of c m ps = filter (\<lambda>p. is_weak_reference c m p = Ok True) ps"

lemma weak_stack_lifo:
  "weak_ref_stack_pop (weak_ref_stack_push obj vm) = (Some obj, vm)"
  by (simp add: weak_ref_stack_pop_def weak_ref_stack_push_def)

text \<open>Popping until \<open>None\<close> gives the weak references, the last pushed first.\<close>

interpretation weak_stack: source weak_ref_stack_pop "\<lambda>vm. rev (weak_ref_stack vm)"
proof unfold_locales
  fix vm :: "'t vm" and w ws assume "rev (weak_ref_stack vm) = w # ws"
  then have "weak_ref_stack vm = rev ws @ [w]" by (simp add: rev_eq_Cons_iff)
  then show "\<exists>vm'. weak_ref_stack_pop vm = (Some w, vm') \<and> rev (weak_ref_stack vm') = ws"
    by (intro exI [of _ "vm\<lparr>weak_ref_stack := rev ws\<rparr>"]) (simp add: weak_ref_stack_pop_def)
qed (simp add: weak_ref_stack_pop_def)

lemma weak_refs_popped_last_first:
  "pull weak_ref_stack_pop (length (weak_ref_stack vm) + n) vm =
    map Some (rev (weak_ref_stack vm)) @ replicate n None"
  using weak_stack.pull_all [of vm n] by simp

lemma push_weak_upd_simps [simp]:
  "memory (push_weak_upd ws vm) = memory vm" "core_state (push_weak_upd ws vm) = core_state vm"
  "weak_ref_stack (push_weak_upd ws vm) = weak_ref_stack vm @ ws"
  "pinned_objects (push_weak_upd ws vm) = pinned_objects vm"
  "binding_set (push_weak_upd ws vm) = binding_set vm"
  "upcall_trace (push_weak_upd ws vm) = upcall_trace vm"
  "push_weak_upd us (push_weak_upd ws vm) = push_weak_upd (ws @ us) vm" "push_weak_upd [] vm = vm"
  by (simp_all add: push_weak_upd_def)

lemma push_if_weak_Ok:
  "is_weak_reference c (memory vm) obj = Ok b \<Longrightarrow>
   push_if_weak c obj vm = Ok (push_weak_upd (if b then [obj] else []) vm)"
  by (simp add: push_if_weak_def weak_ref_stack_push_def push_weak_upd_def)

lemma init_vm_simps [simp]:
  "memory (init_vm m t) = m" "core_state (init_vm m t) = t" "weak_ref_stack (init_vm m t) = []"
  "pinned_objects (init_vm m t) = []" "binding_set (init_vm m t)" "upcall_trace (init_vm m t) = []"
  by (simp_all add: init_vm_def)

end
