(* ===== verification/Roots_Buffer.thy ===== *)
theory Roots_Buffer
  imports Config
begin

text \<open>
  Root reporting (\<open>src/mmtk/src/scanning.rs\<close>, \<open>release_buffer\<close> of \<open>api.rs\<close>): roots are
  gathered in a \<open>Vec\<close> allocation that crosses the C boundary as a raw pointer, handed to
  the work factory when full, and replaced by a new one. Allocations are tracked, so a
  leak, a double free, a write past the end or a read of an uninitialised slot is
  visible. The locale \<open>nodes_sink\<close> is what \<open>RootsClosure\<close> relies on; it is interpreted on
  \<open>report_nodes_and_renew_buffer\<close>.
\<close>

section \<open>Vec allocations\<close>

record buf =
  buf_cap :: nat
  buf_slots :: "nat \<rightharpoonup> u64"

text \<open>The live allocations by identity, the next identity, and the factory's state.\<close>

record 'f bufs =
  allocs :: "nat \<rightharpoonup> buf"
  fresh :: nat
  factory :: 'f

text \<open>\<open>Vec::with_capacity\<close> whose storage is leaked into a raw pointer by \<open>ManuallyDrop\<close>.\<close>

definition with_capacity :: "nat \<Rightarrow> 'f bufs \<Rightarrow> nat \<times> 'f bufs" where
  "with_capacity n b =
     (fresh b, b\<lparr>allocs := (allocs b)(fresh b \<mapsto> \<lparr>buf_cap = n, buf_slots = Map.empty\<rparr>),
                 fresh := Suc (fresh b)\<rparr>)"

text \<open>
  \<open>Vec::from_raw_parts\<close> of a buffer, read and dropped: the allocation must be live and of
  that capacity, and its first \<open>length\<close> slots initialised.
\<close>

definition from_raw_parts :: "nat \<Rightarrow> nat \<Rightarrow> nat \<Rightarrow> 'f bufs \<Rightarrow> (u64 list \<times> 'f bufs) res" where
  "from_raw_parts ptr len cap b =
     (case allocs b ptr of
        None \<Rightarrow> Err Bad_buffer
      | Some a \<Rightarrow>
          if buf_cap a = cap \<and> len \<le> cap \<and> list_all (\<lambda>i. buf_slots a i \<noteq> None) [0..<len]
          then Ok (map (\<lambda>i. the (buf_slots a i)) [0..<len], b\<lparr>allocs := (allocs b)(ptr := None)\<rparr>)
          else Err Bad_buffer)"

definition write_slot :: "nat option \<Rightarrow> nat \<Rightarrow> u64 \<Rightarrow> 'f bufs \<Rightarrow> 'f bufs res" where
  "write_slot ptr i p b =
     (case ptr of
        None \<Rightarrow> Err Segv
      | Some ptr \<Rightarrow>
          (case allocs b ptr of
             None \<Rightarrow> Err Bad_buffer
           | Some a \<Rightarrow>
               if i < buf_cap a
               then Ok (b\<lparr>allocs := (allocs b)(ptr \<mapsto> a\<lparr>buf_slots := (buf_slots a)(i \<mapsto> p)\<rparr>)\<rparr>)
               else Err Bad_buffer))"


section \<open>Reporting and renewing\<close>

definition WORK_PACKET_CAPACITY :: nat where
  "WORK_PACKET_CAPACITY = 4096"

record new_buffer =
  nb_ptr :: "nat option"
  nb_capacity :: nat

text \<open>
  \<open>create\<close> is the factory's \<open>create_process_pinning_roots_work\<close>, respectively
  \<open>create_process_edge_roots_work\<close>. A null pointer reports nothing.
\<close>

definition report_nodes_and_renew_buffer ::
    "(u64 list \<Rightarrow> 'f \<Rightarrow> 'f) \<Rightarrow> nat option \<Rightarrow> nat \<Rightarrow> nat \<Rightarrow> 'f bufs \<Rightarrow> (new_buffer \<times> 'f bufs) res" where
  "report_nodes_and_renew_buffer create ptr len cap b =
     bindR (case ptr of
        None \<Rightarrow> Ok b
      | Some ptr \<Rightarrow>
          bindR (from_raw_parts ptr len cap b) (\<lambda>(buf, b).
          Ok (b\<lparr>factory := create buf (factory b)\<rparr>))) (\<lambda>b.
     case with_capacity WORK_PACKET_CAPACITY b of (ptr, b) \<Rightarrow>
     Ok (\<lparr>nb_ptr = Some ptr, nb_capacity = WORK_PACKET_CAPACITY\<rparr>, b))"

definition simple_edge_from_address :: "u64 \<Rightarrow> scalanative_edge" where
  "simple_edge_from_address addr = addr"

definition report_edges_and_renew_buffer ::
    "(u64 list \<Rightarrow> 'f \<Rightarrow> 'f) \<Rightarrow> nat option \<Rightarrow> nat \<Rightarrow> nat \<Rightarrow> 'f bufs \<Rightarrow> (new_buffer \<times> 'f bufs) res" where
  "report_edges_and_renew_buffer create ptr len cap b =
     bindR (case ptr of
        None \<Rightarrow> Ok b
      | Some ptr \<Rightarrow>
          bindR (from_raw_parts ptr len cap b) (\<lambda>(address_buf, b).
          Ok (b\<lparr>factory := create (map simple_edge_from_address address_buf) (factory b)\<rparr>))) (\<lambda>b.
     case with_capacity WORK_PACKET_CAPACITY b of (ptr, b) \<Rightarrow>
     Ok (\<lparr>nb_ptr = Some ptr, nb_capacity = WORK_PACKET_CAPACITY\<rparr>, b))"

definition release_buffer :: "nat \<Rightarrow> nat \<Rightarrow> nat \<Rightarrow> 'f bufs \<Rightarrow> 'f bufs res" where
  "release_buffer ptr len cap b = bindR (from_raw_parts ptr len cap b) (\<lambda>(_, b). Ok b)"


section \<open>Closures over a factory\<close>

text \<open>The \<open>data\<close> pointer of a closure is the factory, which is part of the state.\<close>

record 'f nodes_closure =
  func :: "nat option \<Rightarrow> nat \<Rightarrow> nat \<Rightarrow> 'f bufs \<Rightarrow> (new_buffer \<times> 'f bufs) res"

definition to_nodes_closure :: "(u64 list \<Rightarrow> 'f \<Rightarrow> 'f) \<Rightarrow> 'f nodes_closure" where
  "to_nodes_closure create = \<lparr>func = report_nodes_and_renew_buffer create\<rparr>"

text \<open>\<open>EdgesClosure\<close> has the same fields, over addresses of slots.\<close>

type_synonym 'f edges_closure = "'f nodes_closure"

definition nodes_closure_clone :: "'f nodes_closure \<Rightarrow> 'f nodes_closure" where
  "nodes_closure_clone nc = \<lparr>func = func nc\<rparr>"

definition to_edges_closure :: "(u64 list \<Rightarrow> 'f \<Rightarrow> 'f) \<Rightarrow> 'f edges_closure" where
  "to_edges_closure create = \<lparr>func = report_edges_and_renew_buffer create\<rparr>"


section \<open>RootsClosure\<close>

record 'f roots_closure =
  buffer :: "nat option"
  cursor :: nat
  capacity :: nat
  nodes_closure :: "'f nodes_closure"

definition rc_new :: "'f nodes_closure \<Rightarrow> 'f bufs \<Rightarrow> ('f roots_closure \<times> 'f bufs) res" where
  "rc_new nc b =
     bindR (func nc None 0 0 b) (\<lambda>(buf, b).
     Ok (\<lparr>buffer = nb_ptr buf, cursor = 0, capacity = nb_capacity buf, nodes_closure = nc\<rparr>, b))"

definition rc_flush :: "'f roots_closure \<times> 'f bufs \<Rightarrow> ('f roots_closure \<times> 'f bufs) res" where
  "rc_flush = (\<lambda>(rc, b).
     if 0 < cursor rc
     then bindR (func (nodes_closure rc) (buffer rc) (cursor rc) (capacity rc) b) (\<lambda>(buf, b).
          Ok (rc\<lparr>buffer := nb_ptr buf, capacity := nb_capacity buf, cursor := 0\<rparr>, b))
     else Ok (rc, b))"

definition rc_do_work :: "u64 \<Rightarrow> 'f roots_closure \<times> 'f bufs \<Rightarrow> ('f roots_closure \<times> 'f bufs) res" where
  "rc_do_work p = (\<lambda>(rc, b).
     bindR (write_slot (buffer rc) (cursor rc) p b) (\<lambda>b.
     let rc = rc\<lparr>cursor := cursor rc + 1\<rparr> in
     if capacity rc \<le> cursor rc then rc_flush (rc, b) else Ok (rc, b)))"

definition rc_drop :: "'f roots_closure \<times> 'f bufs \<Rightarrow> 'f bufs res" where
  "rc_drop = (\<lambda>(rc, b).
     bindR (if 0 < cursor rc then rc_flush (rc, b) else Ok (rc, b)) (\<lambda>(rc, b).
     case buffer rc of
       None \<Rightarrow> Ok b
     | Some ptr \<Rightarrow> release_buffer ptr (cursor rc) (capacity rc) b))"

text \<open>The life of a closure: created, fed, and dropped at the end of its scope.\<close>

definition rc_run :: "'f nodes_closure \<Rightarrow> u64 list \<Rightarrow> 'f bufs \<Rightarrow> 'f bufs res" where
  "rc_run nc ps b = bindR (rc_new nc b) (\<lambda>s. bindR (foldR rc_do_work ps s) rc_drop)"


section \<open>Packets\<close>

text \<open>The specification: a list cut into consecutive packets of \<open>n\<close> elements, the last one shorter.\<close>

function chunks :: "nat \<Rightarrow> 'a list \<Rightarrow> 'a list list" where
  "chunks n xs = (if n = 0 \<or> xs = [] then [] else take n xs # chunks n (drop n xs))"
  by pat_completeness auto
termination
  by (relation "measure (\<lambda>(n, xs). length xs)") auto

declare chunks.simps [simp del]

lemma chunks_Nil [simp]: "chunks n [] = []"
  by (simp add: chunks.simps)

lemma concat_chunks: "0 < n \<Longrightarrow> concat (chunks n xs) = xs"
  by (induction n xs rule: chunks.induct) (subst chunks.simps, auto)

lemma chunks_packet:
  assumes "p \<in> set (chunks n xs)"
  shows "p \<noteq> []" "length p \<le> n"
  using assms
  by (induction n xs rule: chunks.induct) (subst (asm) (2) chunks.simps, auto split: if_splits)+

lemma chunks_short: "0 < length xs \<Longrightarrow> length xs \<le> n \<Longrightarrow> chunks n xs = [xs]"
  by (subst chunks.simps) (cases n; auto)

lemma chunks_full: "length xs = n \<Longrightarrow> 0 < n \<Longrightarrow> chunks n (xs @ ys) = xs # chunks n ys"
  by (subst chunks.simps) auto


section \<open>What a RootsClosure relies on\<close>

definition fresh_ok :: "'f bufs \<Rightarrow> bool" where
  "fresh_ok b \<longleftrightarrow> (\<forall>j\<ge>fresh b. allocs b j = None)"

text \<open>A live allocation of capacity \<open>n\<close> whose first slots hold \<open>xs\<close>.\<close>

definition holds :: "'f bufs \<Rightarrow> nat \<Rightarrow> nat \<Rightarrow> u64 list \<Rightarrow> bool" where
  "holds b ptr n xs \<longleftrightarrow>
     (\<exists>a. allocs b ptr = Some a \<and> buf_cap a = n \<and> length xs \<le> n \<and>
          (\<forall>i<length xs. buf_slots a i = Some (xs ! i)))"

definition others :: "'f bufs \<Rightarrow> nat \<Rightarrow> (nat \<rightharpoonup> buf)" where
  "others b ptr = (allocs b)(ptr := None)"

lemma fresh_ok_others [simp]: "fresh_ok b \<Longrightarrow> fresh_ok (b\<lparr>allocs := others b ptr\<rparr>)"
  by (simp add: fresh_ok_def others_def)

lemma from_raw_parts_holds:
  assumes "holds b ptr n xs"
  shows "from_raw_parts ptr (length xs) n b = Ok (xs, b\<lparr>allocs := others b ptr\<rparr>)"
proof -
  obtain a where a: "allocs b ptr = Some a" "buf_cap a = n" "length xs \<le> n"
    "\<And>i. i < length xs \<Longrightarrow> buf_slots a i = Some (xs ! i)"
    using assms by (auto simp: holds_def)
  then have "map (\<lambda>i. the (buf_slots a i)) [0..<length xs] = xs"
    by (intro nth_equalityI) auto
  with a show ?thesis by (simp add: from_raw_parts_def others_def list_all_iff)
qed

locale nodes_sink =
  fixes nc :: "'f nodes_closure"
    and deliver :: "u64 list \<Rightarrow> 'f \<Rightarrow> 'f"
    and cap :: nat
  assumes cap_pos: "0 < cap"
    and renew: "fresh_ok b \<Longrightarrow> \<exists>ptr b'. func nc None 0 0 b = Ok (\<lparr>nb_ptr = Some ptr, nb_capacity = cap\<rparr>, b') \<and>
      fresh_ok b' \<and> holds b' ptr cap [] \<and> others b' ptr = allocs b \<and> factory b' = factory b"
    and report: "fresh_ok b \<Longrightarrow> holds b old n xs \<Longrightarrow>
      \<exists>ptr b'. func nc (Some old) (length xs) n b = Ok (\<lparr>nb_ptr = Some ptr, nb_capacity = cap\<rparr>, b') \<and>
      fresh_ok b' \<and> holds b' ptr cap [] \<and> others b' ptr = others b old \<and>
      factory b' = deliver xs (factory b)"
begin

text \<open>
  The closure's invariant: its buffer is a live allocation of the packet capacity, the
  slots below the cursor hold the pending roots \<open>xs\<close>, there is room for one more, and
  the other live allocations are \<open>al\<close>.
\<close>

lemma do_work_refines:
  assumes "fresh_ok b" "buffer rc = Some ptr" "holds b ptr cap xs" "capacity rc = cap"
    and "cursor rc = length xs" "length xs < cap" "nodes_closure rc = nc" "others b ptr = al"
  shows "\<exists>rc' b' ptr'. rc_do_work p (rc, b) = Ok (rc', b') \<and>
    fresh_ok b' \<and> buffer rc' = Some ptr' \<and> capacity rc' = cap \<and> nodes_closure rc' = nc \<and>
    others b' ptr' = al \<and>
    (if length xs + 1 = cap
     then holds b' ptr' cap [] \<and> cursor rc' = 0 \<and> factory b' = deliver (xs @ [p]) (factory b)
     else holds b' ptr' cap (xs @ [p]) \<and> cursor rc' = length (xs @ [p]) \<and> factory b' = factory b)"
proof -
  obtain a where a: "allocs b ptr = Some a" "buf_cap a = cap"
    "\<And>i. i < length xs \<Longrightarrow> buf_slots a i = Some (xs ! i)"
    using assms(3) by (auto simp: holds_def)
  let ?b = "b\<lparr>allocs := (allocs b)(ptr \<mapsto> a\<lparr>buf_slots := (buf_slots a)(length xs \<mapsto> p)\<rparr>)\<rparr>"
  have wr: "write_slot (buffer rc) (cursor rc) p b = Ok ?b"
    using a assms by (simp add: write_slot_def)
  have b: "fresh_ok ?b" "holds ?b ptr cap (xs @ [p])" "others ?b ptr = al" "factory ?b = factory b"
    using assms a by (auto simp: fresh_ok_def holds_def others_def nth_append not_less)
  show ?thesis
  proof (cases "length xs + 1 = cap")
    case True
    from report [OF b(1,2)] obtain ptr' b' where
      "func nc (Some ptr) (length (xs @ [p])) cap ?b = Ok (\<lparr>nb_ptr = Some ptr', nb_capacity = cap\<rparr>, b')"
      "fresh_ok b'" "holds b' ptr' cap []" "others b' ptr' = al" "factory b' = deliver (xs @ [p]) (factory b)"
      using b(3,4) by auto
    then show ?thesis
      using True wr assms by (simp add: rc_do_work_def rc_flush_def Let_def)
  next
    case False
    then show ?thesis
      using wr assms b by (simp add: rc_do_work_def Let_def)
  qed
qed

lemma feed_refines:
  assumes "fresh_ok b" "buffer rc = Some ptr" "holds b ptr cap xs" "capacity rc = cap"
    and "cursor rc = length xs" "length xs < cap" "nodes_closure rc = nc" "others b ptr = al"
  shows "\<exists>b'. bindR (foldR rc_do_work ps (rc, b)) rc_drop = Ok b' \<and>
    allocs b' = al \<and> fresh_ok b' \<and> factory b' = fold deliver (chunks cap (xs @ ps)) (factory b)"
  using assms
proof (induction ps arbitrary: rc b ptr xs)
  case Nil
  show ?case
  proof (cases "xs = []")
    case True
    then show ?thesis
      using Nil from_raw_parts_holds [of b ptr cap "[]"] fresh_ok_others [of b ptr]
      by (simp add: rc_drop_def release_buffer_def)
  next
    case False
    from report [OF Nil.prems(1,3)] obtain ptr' b' where
      "func nc (Some ptr) (length xs) cap b = Ok (\<lparr>nb_ptr = Some ptr', nb_capacity = cap\<rparr>, b')"
      "fresh_ok b'" "holds b' ptr' cap []" "others b' ptr' = al" "factory b' = deliver xs (factory b)"
      using Nil.prems(8) by auto
    then show ?thesis
      using False Nil.prems from_raw_parts_holds [of b' ptr' cap "[]"] fresh_ok_others [of b' ptr']
      by (simp add: rc_drop_def rc_flush_def release_buffer_def chunks_short)
  qed
next
  case (Cons p ps)
  from do_work_refines [OF Cons.prems, of p] obtain rc' b' ptr' where s: "rc_do_work p (rc, b) = Ok (rc', b')"
    "fresh_ok b'" "buffer rc' = Some ptr'" "capacity rc' = cap" "nodes_closure rc' = nc" "others b' ptr' = al"
    and d: "if length xs + 1 = cap
     then holds b' ptr' cap [] \<and> cursor rc' = 0 \<and> factory b' = deliver (xs @ [p]) (factory b)
     else holds b' ptr' cap (xs @ [p]) \<and> cursor rc' = length (xs @ [p]) \<and> factory b' = factory b"
    by blast
  show ?case
  proof (cases "length xs + 1 = cap")
    case True
    then have "chunks cap (xs @ p # ps) = (xs @ [p]) # chunks cap ps"
      using chunks_full [of "xs @ [p]" cap ps] cap_pos by simp
    then show ?thesis
      using Cons.IH [of b' rc' ptr' "[]"] s d True cap_pos by simp
  next
    case False
    then have "length (xs @ [p]) < cap" using Cons.prems(6) by simp
    then show ?thesis
      using Cons.IH [of b' rc' ptr' "xs @ [p]"] s d False by simp
  qed
qed

text \<open>A closure's whole life delivers its roots in packets and leaves no allocation behind.\<close>

lemma run_delivers:
  assumes "fresh_ok b"
  shows "\<exists>b'. rc_run nc ps b = Ok b' \<and> allocs b' = allocs b \<and> fresh_ok b' \<and>
    factory b' = fold deliver (chunks cap ps) (factory b)"
proof -
  from renew [OF assms] obtain ptr b1 where new:
    "func nc None 0 0 b = Ok (\<lparr>nb_ptr = Some ptr, nb_capacity = cap\<rparr>, b1)"
    and b1: "fresh_ok b1" "holds b1 ptr cap []" "others b1 ptr = allocs b" "factory b1 = factory b"
    by blast
  show ?thesis
    using feed_refines [where b = b1 and ptr = ptr and xs = "[]" and al = "allocs b" and ps = ps
        and rc = "\<lparr>buffer = Some ptr, cursor = 0, capacity = cap, nodes_closure = nc\<rparr>"]
      new b1 cap_pos by (simp add: rc_run_def rc_new_def)
qed

end

text \<open>The binding's own report function meets the contract.\<close>

lemma with_capacity_fresh:
  assumes "fresh_ok b"
  obtains ptr b' where "with_capacity n b = (ptr, b')" "fresh_ok b'" "holds b' ptr n []"
    "others b' ptr = allocs b" "factory b' = factory b"
  using assms that by (fastforce simp: with_capacity_def fresh_ok_def holds_def others_def)

interpretation nodes: nodes_sink "to_nodes_closure create" create WORK_PACKET_CAPACITY
proof
  show "0 < WORK_PACKET_CAPACITY" by (simp add: WORK_PACKET_CAPACITY_def)
next
  fix b :: "'a bufs" assume "fresh_ok b"
  then show "\<exists>ptr b'. func (to_nodes_closure create) None 0 0 b
      = Ok (\<lparr>nb_ptr = Some ptr, nb_capacity = WORK_PACKET_CAPACITY\<rparr>, b') \<and>
      fresh_ok b' \<and> holds b' ptr WORK_PACKET_CAPACITY [] \<and> others b' ptr = allocs b \<and> factory b' = factory b"
    by (rule with_capacity_fresh [where n = WORK_PACKET_CAPACITY])
       (simp add: to_nodes_closure_def report_nodes_and_renew_buffer_def)
next
  fix b :: "'a bufs" and old n xs assume b: "fresh_ok b" "holds b old n xs"
  let ?b = "b\<lparr>allocs := others b old, factory := create xs (factory b)\<rparr>"
  have "fresh_ok ?b" using b by (auto simp: fresh_ok_def others_def)
  then show "\<exists>ptr b'. func (to_nodes_closure create) (Some old) (length xs) n b
      = Ok (\<lparr>nb_ptr = Some ptr, nb_capacity = WORK_PACKET_CAPACITY\<rparr>, b') \<and>
      fresh_ok b' \<and> holds b' ptr WORK_PACKET_CAPACITY [] \<and> others b' ptr = others b old \<and>
      factory b' = create xs (factory b)"
    by (rule with_capacity_fresh [where n = WORK_PACKET_CAPACITY])
       (use from_raw_parts_holds [OF b(2)] in
         \<open>simp add: to_nodes_closure_def report_nodes_and_renew_buffer_def\<close>)
qed

lemma report_edges_eq: "report_edges_and_renew_buffer create = report_nodes_and_renew_buffer create"
proof -
  have id: "simple_edge_from_address = (\<lambda>x. x)"
    by (simp add: simple_edge_from_address_def fun_eq_iff)
  show ?thesis
    unfolding fun_eq_iff report_edges_and_renew_buffer_def report_nodes_and_renew_buffer_def id map_ident
    by simp
qed

lemma edges_closure_eq: "to_edges_closure create = to_nodes_closure create"
  by (simp add: to_edges_closure_def to_nodes_closure_def report_edges_eq)

interpretation edges: nodes_sink "to_edges_closure create" create WORK_PACKET_CAPACITY
  unfolding edges_closure_eq by (rule nodes.nodes_sink_axioms)

text \<open>
  C3. Over its whole life a \<open>RootsClosure\<close> hands every root it was given to the work
  factory, once and in order, in non-empty packets of at most
  \<open>WORK_PACKET_CAPACITY\<close> roots; it never writes past its buffer or touches a freed one,
  and when it is dropped no allocation of its own is left.
\<close>

theorem roots_delivered_once:
  assumes "fresh_ok b"
  shows "\<exists>b' packets. rc_run (to_nodes_closure create) ps b = Ok b' \<and>
    factory b' = fold create packets (factory b) \<and> concat packets = ps \<and>
    list_all (\<lambda>p. p \<noteq> [] \<and> length p \<le> WORK_PACKET_CAPACITY) packets \<and>
    allocs b' = allocs b"
proof -
  have "list_all (\<lambda>p. p \<noteq> [] \<and> length p \<le> WORK_PACKET_CAPACITY) (chunks WORK_PACKET_CAPACITY ps)"
    using chunks_packet [where n = WORK_PACKET_CAPACITY and xs = ps] by (auto simp: list_all_iff)
  then show ?thesis
    using nodes.run_delivers [OF assms, of create ps] concat_chunks [OF nodes.cap_pos, of ps]
    by (auto intro!: exI [of _ "chunks WORK_PACKET_CAPACITY ps"])
qed

definition no_bufs :: "u64 list list bufs" where
  "no_bufs = \<lparr>allocs = Map.empty, fresh = 0, factory = []\<rparr>"

lemma fresh_no_bufs [simp]: "fresh_ok no_bufs"
  by (simp add: no_bufs_def fresh_ok_def)

theorem roots_delivered_once_witness:
  "\<exists>b' packets. rc_run (to_nodes_closure (\<lambda>p f. f @ [p])) [0x10000, 0x10020, 0x10000] no_bufs = Ok b' \<and>
    factory b' = fold (\<lambda>p f. f @ [p]) packets (factory no_bufs) \<and> concat packets = [0x10000, 0x10020, 0x10000] \<and>
    list_all (\<lambda>p. p \<noteq> [] \<and> length p \<le> WORK_PACKET_CAPACITY) packets \<and>
    allocs b' = allocs no_bufs"
  by (rule roots_delivered_once) simp

text \<open>
  Reporting a full or partly filled buffer consumes it: the factory gets exactly the
  initialised prefix, the old allocation is gone (a second report of the same pointer is
  a use after free), and a new empty buffer of the packet capacity comes back. Edges
  and nodes behave alike.
\<close>

lemma report_consumes_buffer:
  assumes "fresh_ok b" "holds b old n xs"
  shows "\<exists>new b'. report_nodes_and_renew_buffer create (Some old) (length xs) n b = Ok (new, b') \<and>
    report_edges_and_renew_buffer create (Some old) (length xs) n b = Ok (new, b') \<and>
    factory b' = create xs (factory b) \<and> allocs b' old = None \<and>
    nb_capacity new = WORK_PACKET_CAPACITY \<and>
    report_nodes_and_renew_buffer create (Some old) k l b' = Err Bad_buffer"
proof -
  obtain ptr b' where r: "report_nodes_and_renew_buffer create (Some old) (length xs) n b
      = Ok (\<lparr>nb_ptr = Some ptr, nb_capacity = WORK_PACKET_CAPACITY\<rparr>, b')"
    "others b' ptr = others b old" "factory b' = create xs (factory b)" "holds b' ptr WORK_PACKET_CAPACITY []"
    using nodes.report [OF assms, of create] by (auto simp: to_nodes_closure_def)
  have e: "report_edges_and_renew_buffer create (Some old) (length xs) n b
      = report_nodes_and_renew_buffer create (Some old) (length xs) n b"
    by (simp add: report_edges_eq)
  have "ptr = fresh b"
    using r(1) by (auto simp: report_nodes_and_renew_buffer_def with_capacity_def
        from_raw_parts_holds [OF assms(2)])
  moreover have "old \<noteq> fresh b"
    using assms by (auto simp: fresh_ok_def holds_def)
  ultimately have "allocs b' old = None"
    using r(2) by (metis fun_upd_apply others_def)
  then have "report_nodes_and_renew_buffer create (Some old) k l b' = Err Bad_buffer"
    by (simp add: report_nodes_and_renew_buffer_def from_raw_parts_def)
  then show ?thesis using r e \<open>allocs b' old = None\<close> by auto
qed

definition one_buf :: "u64 list list bufs" where
  "one_buf = \<lparr>allocs = [0 \<mapsto> \<lparr>buf_cap = 2, buf_slots = [0 \<mapsto> 0x10000]\<rparr>], fresh = 1, factory = []\<rparr>"

lemma report_consumes_one_buf:
  "\<exists>new b'. report_nodes_and_renew_buffer (#) (Some 0) (length [0x10000 :: u64]) 2 one_buf = Ok (new, b') \<and>
    report_edges_and_renew_buffer (#) (Some 0) (length [0x10000 :: u64]) 2 one_buf = Ok (new, b') \<and>
    factory b' = [0x10000] # factory one_buf \<and> allocs b' 0 = None \<and>
    nb_capacity new = WORK_PACKET_CAPACITY \<and>
    report_nodes_and_renew_buffer (#) (Some 0) 1 2 b' = Err Bad_buffer"
  by (rule report_consumes_buffer) (simp_all add: one_buf_def fresh_ok_def holds_def)

end
