(* ===== verification/Scanning.thy ===== *)
theory Scanning
  imports Vm Roots_Buffer
begin

text \<open>
  Root scanning (\<open>src/mmtk/src/scanning.rs\<close>): marking an object, a field, a possible
  pointer, the modules, a range of words, a thread's stack and registers, and all
  threads. \<open>depth\<close> bounds the recursion from an object through the monitors of its lock
  words (\<open>Stack_overflow\<close> below it). The state is the virtual machine's, with the
  \<open>RootsClosure\<close> and its allocations.
\<close>

type_synonym ('t, 'f) mark_state = "'t vm \<times> 'f roots_closure \<times> 'f bufs"

section \<open>Marking an object\<close>

text \<open>The recursive calls of \<open>mmtk_mark_field\<close> and \<open>mmtk_mark_lock_words\<close> go to \<open>rec\<close>.\<close>

definition mark_field_with ::
    "'t mmtk \<Rightarrow> (u64 \<Rightarrow> ('t, 'f) mark_state \<Rightarrow> ('t, 'f) mark_state res) \<Rightarrow>
     u64 \<Rightarrow> ('t, 'f) mark_state \<Rightarrow> ('t, 'f) mark_state res" where
  "mark_field_with mm rec fld s =
     (if is_word_in_heap mm fld
      then (if is_object mm (fst s) fld then rec fld s else Ok s)
      else Ok s)"

definition mark_lock_words_with ::
    "'a upcalls_scheme \<Rightarrow> 't mmtk \<Rightarrow> (u64 \<Rightarrow> ('t, 'f) mark_state \<Rightarrow> ('t, 'f) mark_state res) \<Rightarrow>
     u64 \<Rightarrow> ('t, 'f) mark_state \<Rightarrow> ('t, 'f) mark_state res" where
  "mark_lock_words_with c mm rec obj s =
     (if uses_lockword c \<and> obj \<noteq> 0
      then bindR (obj_rtti c (memory (fst s)) obj) (\<lambda>rtti.
           bindR (load64 (memory (fst s)) (rtti_lock_word_addr c rtti)) (\<lambda>rtti_lock.
           bindR (if field_is_inflated_lock rtti_lock
                  then mark_field_with mm rec (field_alligned_lock_ref rtti_lock) s else Ok s) (\<lambda>s.
           bindR (obj_lock_word c (memory (fst s)) obj) (\<lambda>object_lock.
           if field_is_inflated_lock object_lock
           then mark_field_with mm rec (field_alligned_lock_ref object_lock) s else Ok s))))
      else Ok s)"

primrec mmtk_mark_object ::
    "'a upcalls_scheme \<Rightarrow> 't mmtk \<Rightarrow> nat \<Rightarrow> u64 \<Rightarrow> ('t, 'f) mark_state \<Rightarrow> ('t, 'f) mark_state res" where
  "mmtk_mark_object c mm 0 = (\<lambda>obj s. Err Stack_overflow)"
| "mmtk_mark_object c mm (Suc depth) = (\<lambda>obj s.
     bindR (debug_assert c (bindR (obj_rtti c (memory (fst s)) obj) (\<lambda>rtti. Ok (rtti \<noteq> 0)))) (\<lambda>_.
     bindR (mark_lock_words_with c mm (mmtk_mark_object c mm depth) obj s) (\<lambda>(vm, rcb).
     bindR (push_if_weak c obj vm) (\<lambda>vm.
     bindR (debug_assert c (bindR (obj_size c (memory vm) obj) (\<lambda>n. Ok (n \<noteq> 0)))) (\<lambda>_.
     bindR (rc_do_work obj rcb) (\<lambda>rcb. Ok (vm, rcb)))))))"

definition mmtk_mark_field ::
    "'a upcalls_scheme \<Rightarrow> 't mmtk \<Rightarrow> nat \<Rightarrow> u64 \<Rightarrow> ('t, 'f) mark_state \<Rightarrow> ('t, 'f) mark_state res" where
  "mmtk_mark_field c mm depth = mark_field_with mm (mmtk_mark_object c mm depth)"

definition mmtk_mark_lock_words ::
    "'a upcalls_scheme \<Rightarrow> 't mmtk \<Rightarrow> nat \<Rightarrow> u64 \<Rightarrow> ('t, 'f) mark_state \<Rightarrow> ('t, 'f) mark_state res" where
  "mmtk_mark_lock_words c mm depth = mark_lock_words_with c mm (mmtk_mark_object c mm depth)"

definition mmtk_mark_conservative ::
    "'a upcalls_scheme \<Rightarrow> 't mmtk \<Rightarrow> nat \<Rightarrow> u64 \<Rightarrow> ('t, 'f) mark_state \<Rightarrow> ('t, 'f) mark_state res" where
  "mmtk_mark_conservative c mm depth address s =
     bindR (debug_assert c (Ok (is_word_in_heap mm address))) (\<lambda>_.
     bindR (inverse_mask c) (\<lambda>mask.
     let obj = address AND mask in
     if obj \<noteq> 0
     then (if is_object mm (fst s) obj then mmtk_mark_object c mm depth obj s else Ok s)
     else Ok s))"


section \<open>Pinning\<close>

text \<open>
  With \<open>object_pinning\<close>, a word is pinned before it is marked, and the words that
  \<open>pin_object\<close> newly pinned are collected.
\<close>

definition pin_word ::
    "'a upcalls_scheme \<Rightarrow> 't mmtk \<Rightarrow> u64 \<Rightarrow> u64 list \<times> ('t, 'f) mark_state \<Rightarrow>
     u64 list \<times> ('t, 'f) mark_state" where
  "pin_word c mm w = (\<lambda>(pins, vm, rcb).
     if object_pinning c
     then (case pin_object mm w (core_state vm) of (pinned, t) \<Rightarrow>
           (if pinned then pins @ [w] else pins, vm\<lparr>core_state := t\<rparr>, rcb))
     else (pins, vm, rcb))"

definition append_pins ::
    "'a upcalls_scheme \<Rightarrow> u64 list \<times> ('t, 'f) mark_state \<Rightarrow> ('t, 'f) mark_state res" where
  "append_pins c = (\<lambda>(pins, vm, rcb).
     if object_pinning c then bindR (append_to_binding pins vm) (\<lambda>vm. Ok (vm, rcb)) else Ok (vm, rcb))"


section \<open>Modules\<close>

definition mark_module ::
    "'a upcalls_scheme \<Rightarrow> 't mmtk \<Rightarrow> nat \<Rightarrow> int \<Rightarrow> u64 list \<times> ('t, 'f) mark_state \<Rightarrow>
     (u64 list \<times> ('t, 'f) mark_state) res" where
  "mark_module c mm depth i st =
     bindR (ptr_offset (get_modules c) i) (\<lambda>edge.
     bindR (load64 (memory (fst (snd st))) edge) (\<lambda>node.
     case pin_word c mm node st of (pins, s) \<Rightarrow>
     bindR (mmtk_mark_field c mm depth node s) (\<lambda>s. Ok (pins, s))))"

definition mmtk_mark_modules ::
    "'a upcalls_scheme \<Rightarrow> 't mmtk \<Rightarrow> nat \<Rightarrow> ('t, 'f) mark_state \<Rightarrow> ('t, 'f) mark_state res" where
  "mmtk_mark_modules c mm depth s =
     bindR (foldR (mark_module c mm depth) [0..sint (get_modules_size c) - 1] ([], s)) (append_pins c)"


section \<open>Ranges, stacks and threads\<close>

definition mark_range_word ::
    "'a upcalls_scheme \<Rightarrow> 't mmtk \<Rightarrow> nat \<Rightarrow> u64 \<Rightarrow> u64 list \<times> ('t, 'f) mark_state \<Rightarrow>
     (u64 list \<times> ('t, 'f) mark_state) res" where
  "mark_range_word c mm depth addr st =
     bindR (if is_word_in_heap mm addr then is_ptr_aligned c addr else Ok False) (\<lambda>candidate.
     if candidate
     then (case pin_word c mm addr st of (pins, s) \<Rightarrow>
           bindR (mmtk_mark_conservative c mm depth addr s) (\<lambda>s. Ok (pins, s)))
     else Ok st)"

function mark_range_loop ::
    "'a upcalls_scheme \<Rightarrow> 't mmtk \<Rightarrow> nat \<Rightarrow> u64 \<Rightarrow> u64 \<Rightarrow> u64 list \<times> ('t, 'f) mark_state \<Rightarrow>
     (u64 list \<times> ('t, 'f) mark_state) res" where
  "mark_range_loop c mm depth current to st =
     (if current \<le> to
      then bindR (load64 (memory (fst (snd st))) current) (\<lambda>addr.
           bindR (mark_range_word c mm depth addr st) (\<lambda>st.
           bindR (ptr_offset current 1) (\<lambda>next. mark_range_loop c mm depth next to st)))
      else Ok st)"
  by pat_completeness auto
termination
  by (relation "measure (\<lambda>(c, mm, d, current, to, st). nat (2 ^ 64 - uint current))")
     (auto simp: ptr_offset_def uint_word_ariths split: if_splits)

declare mark_range_loop.simps [simp del]

definition mmtk_mark_range ::
    "'a upcalls_scheme \<Rightarrow> 't mmtk \<Rightarrow> nat \<Rightarrow> u64 \<Rightarrow> u64 \<Rightarrow> ('t, 'f) mark_state \<Rightarrow>
     ('t, 'f) mark_state res" where
  "mmtk_mark_range c mm depth from to s =
     bindR (debug_assert c (Ok (from \<noteq> 0))) (\<lambda>_.
     bindR (debug_assert c (Ok (to \<noteq> 0))) (\<lambda>_.
     bindR (mark_range_loop c mm depth from to ([], s)) (append_pins c)))"

definition mmtk_mark_program_stack ::
    "'a upcalls_scheme \<Rightarrow> 't mmtk \<Rightarrow> nat \<Rightarrow> u64 \<Rightarrow> ('t, 'f) mark_state \<Rightarrow>
     ('t, 'f) mark_state res" where
  "mmtk_mark_program_stack c mm depth tls s =
     (let stack = get_stack_range c tls; rs = get_regs_range c tls in
      bindR (mmtk_mark_range c mm depth (stack_top stack) (stack_bottom stack) s) (\<lambda>s.
      bindR (ptr_offset (regs rs) (uint (regs_size rs))) (\<lambda>regs_end.
      mmtk_mark_range c mm depth (regs rs) regs_end s)))"

text \<open>
  The runtime's thread list is followed to its null end; a list that never ends makes
  the loop run forever (\<open>None\<close>).
\<close>

partial_function (option) mark_threads ::
    "'a upcalls_scheme \<Rightarrow> 't mmtk \<Rightarrow> nat \<Rightarrow> u64 \<Rightarrow> ('t, 'f) mark_state \<Rightarrow>
     ('t, 'f) mark_state res option" where
  "mark_threads c mm depth head s =
     (if head = 0 then Some (Ok s)
      else (case bindR (load64 (memory (fst s)) (field MutatorThreadNode ''value'' head)) (\<lambda>thread.
                 bindR (mmtk_mark_program_stack c mm depth thread s) (\<lambda>s.
                 bindR (load64 (memory (fst s)) (field MutatorThreadNode ''next'' head)) (\<lambda>next.
                 Ok (next, s)))) of
              Inl e \<Rightarrow> Some (Err e)
            | Inr r \<Rightarrow> mark_threads c mm depth (fst r) (snd r)))"


section \<open>The scanning interface\<close>

text \<open>
  A scan creates a \<open>RootsClosure\<close> over the factory, marks, and drops the closure.
  \<open>create\<close> is the factory's \<open>create_process_pinning_roots_work\<close>.
\<close>

definition with_roots_closure ::
    "(u64 list \<Rightarrow> 'f \<Rightarrow> 'f) \<Rightarrow> (('t, 'f) mark_state \<Rightarrow> ('t, 'f) mark_state res) \<Rightarrow>
     't vm \<times> 'f bufs \<Rightarrow> ('t vm \<times> 'f bufs) res" where
  "with_roots_closure create body = (\<lambda>(vm, b).
     bindR (rc_new (to_nodes_closure create) b) (\<lambda>rcb.
     bindR (body (vm, rcb)) (\<lambda>(vm, rcb).
     bindR (rc_drop rcb) (\<lambda>b. Ok (vm, b)))))"

definition scan_roots_in_mutator_thread ::
    "'a upcalls_scheme \<Rightarrow> 't mmtk \<Rightarrow> (u64 list \<Rightarrow> 'f \<Rightarrow> 'f) \<Rightarrow> nat \<Rightarrow> u64 \<Rightarrow>
     't vm \<times> 'f bufs \<Rightarrow> ('t vm \<times> 'f bufs) res" where
  "scan_roots_in_mutator_thread c mm create depth tls =
     with_roots_closure create (mmtk_mark_program_stack c mm depth tls)"

definition scan_roots_in_all_mutator_threads ::
    "'a upcalls_scheme \<Rightarrow> 't mmtk \<Rightarrow> (u64 list \<Rightarrow> 'f \<Rightarrow> 'f) \<Rightarrow> nat \<Rightarrow>
     't vm \<times> 'f bufs \<Rightarrow> ('t vm \<times> 'f bufs) res option" where
  "scan_roots_in_all_mutator_threads c mm create depth = (\<lambda>(vm, b).
     case rc_new (to_nodes_closure create) b of
       Inl e \<Rightarrow> Some (Err e)
     | Inr rcb \<Rightarrow>
         (case mark_threads c mm depth (get_mutator_threads c) (vm, rcb) of
            None \<Rightarrow> None
          | Some r \<Rightarrow> Some (bindR r (\<lambda>(vm, rcb). bindR (rc_drop rcb) (\<lambda>b. Ok (vm, b))))))"

definition scan_vm_specific_roots ::
    "'a upcalls_scheme \<Rightarrow> 't mmtk \<Rightarrow> (u64 list \<Rightarrow> 'f \<Rightarrow> 'f) \<Rightarrow> nat \<Rightarrow>
     't vm \<times> 'f bufs \<Rightarrow> ('t vm \<times> 'f bufs) res option" where
  "scan_vm_specific_roots c mm create depth s =
     (case scan_roots_in_all_mutator_threads c mm create depth s of
        None \<Rightarrow> None
      | Some r \<Rightarrow> Some (bindR r (with_roots_closure create (mmtk_mark_modules c mm depth))))"

end
