(* ===== verification/Scanning_Spec.thy ===== *)
theory Scanning_Spec
  imports Scanning
begin

text \<open>
  What root scanning is for: the list of roots a scan reports, as a function of the
  memory and of mmtk-core's state alone (no closure, no buffers, no stack of weak
  references). The refinement lemmas show that the code of \<open>Scanning\<close> reports exactly
  this list; soundness and completeness of conservative scanning are then facts about
  the list.
\<close>

section \<open>The roots of an object, a word, a range\<close>

fun collectR :: "('a \<Rightarrow> 'b list res) \<Rightarrow> 'a list \<Rightarrow> 'b list res" where
  "collectR f [] = Ok []"
| "collectR f (x # xs) = bindR (f x) (\<lambda>ps. bindR (collectR f xs) (\<lambda>qs. Ok (ps @ qs)))"

definition field_roots :: "'t mmtk \<Rightarrow> 't \<Rightarrow> (u64 \<Rightarrow> u64 list res) \<Rightarrow> u64 \<Rightarrow> u64 list res" where
  "field_roots mm t rec w = (if is_word_in_heap mm w \<and> is_mmtk_object mm t w then rec w else Ok [])"

definition lock_roots ::
    "'a upcalls_scheme \<Rightarrow> 't mmtk \<Rightarrow> mem \<Rightarrow> 't \<Rightarrow> (u64 \<Rightarrow> u64 list res) \<Rightarrow> u64 \<Rightarrow> u64 list res" where
  "lock_roots c mm m t rec obj =
     (if uses_lockword c \<and> obj \<noteq> 0
      then bindR (obj_rtti c m obj) (\<lambda>rtti.
           bindR (load64 m (rtti_lock_word_addr c rtti)) (\<lambda>l.
           bindR (if field_is_inflated_lock l then field_roots mm t rec (field_alligned_lock_ref l) else Ok []) (\<lambda>ps.
           bindR (obj_lock_word c m obj) (\<lambda>l.
           bindR (if field_is_inflated_lock l then field_roots mm t rec (field_alligned_lock_ref l) else Ok []) (\<lambda>qs.
           Ok (ps @ qs))))))
      else Ok [])"

primrec roots_of :: "'a upcalls_scheme \<Rightarrow> 't mmtk \<Rightarrow> mem \<Rightarrow> 't \<Rightarrow> nat \<Rightarrow> u64 \<Rightarrow> u64 list res" where
  "roots_of c mm m t 0 = (\<lambda>obj. Err Stack_overflow)"
| "roots_of c mm m t (Suc depth) = (\<lambda>obj.
     bindR (debug_assert c (bindR (obj_rtti c m obj) (\<lambda>rtti. Ok (rtti \<noteq> 0)))) (\<lambda>_.
     bindR (lock_roots c mm m t (roots_of c mm m t depth) obj) (\<lambda>ps.
     bindR (is_weak_reference c m obj) (\<lambda>_.
     bindR (debug_assert c (bindR (obj_size c m obj) (\<lambda>n. Ok (n \<noteq> 0)))) (\<lambda>_.
     Ok (ps @ [obj]))))))"

text \<open>A word of a stack or register range is a root if it is an aligned address of an object.\<close>

definition candidate :: "'a upcalls_scheme \<Rightarrow> 't mmtk \<Rightarrow> 't \<Rightarrow> u64 \<Rightarrow> bool" where
  "candidate c mm t w \<longleftrightarrow>
     is_word_in_heap mm w \<and> is_ptr_aligned c w = Ok True \<and> w \<noteq> 0 \<and> is_mmtk_object mm t w"

definition word_roots ::
    "'a upcalls_scheme \<Rightarrow> 't mmtk \<Rightarrow> mem \<Rightarrow> 't \<Rightarrow> nat \<Rightarrow> u64 \<Rightarrow> u64 list res" where
  "word_roots c mm m t depth w = (if candidate c mm t w then roots_of c mm m t depth w else Ok [])"

definition words_between :: "u64 \<Rightarrow> u64 \<Rightarrow> u64 list" where
  "words_between from to =
     map (\<lambda>i. from + 8 * of_nat i)
       [0..<(if from \<le> to then (unat to - unat from) div 8 + 1 else 0)]"

definition range_roots ::
    "'a upcalls_scheme \<Rightarrow> 't mmtk \<Rightarrow> mem \<Rightarrow> 't \<Rightarrow> nat \<Rightarrow> u64 \<Rightarrow> u64 \<Rightarrow> u64 list res" where
  "range_roots c mm m t depth from to =
     collectR (\<lambda>a. bindR (load64 m a) (word_roots c mm m t depth)) (words_between from to)"

definition thread_roots ::
    "'a upcalls_scheme \<Rightarrow> 't mmtk \<Rightarrow> mem \<Rightarrow> 't \<Rightarrow> nat \<Rightarrow> u64 \<Rightarrow> u64 list res" where
  "thread_roots c mm m t depth tls =
     (let stack = get_stack_range c tls; rs = get_regs_range c tls in
      bindR (range_roots c mm m t depth (stack_top stack) (stack_bottom stack)) (\<lambda>ps.
      bindR (range_roots c mm m t depth (regs rs) (regs rs + 8 * regs_size rs)) (\<lambda>qs.
      Ok (ps @ qs))))"

definition module_roots ::
    "'a upcalls_scheme \<Rightarrow> 't mmtk \<Rightarrow> mem \<Rightarrow> 't \<Rightarrow> nat \<Rightarrow> u64 list res" where
  "module_roots c mm m t depth =
     collectR (\<lambda>i. bindR (ptr_offset (get_modules c) i) (\<lambda>edge. bindR (load64 m edge) (\<lambda>w.
       field_roots mm t (roots_of c mm m t depth) w)))
       [0..sint (get_modules_size c) - 1]"


section \<open>Reporting a list of roots\<close>

definition emit ::
    "'a upcalls_scheme \<Rightarrow> u64 list \<Rightarrow> ('t, 'f) mark_state \<Rightarrow> ('t, 'f) mark_state res" where
  "emit c ps = (\<lambda>(vm, rcb).
     bindR (foldR rc_do_work ps rcb) (\<lambda>rcb.
     Ok (push_weak_upd (weak_of c (memory vm) ps) vm, rcb)))"

lemma emit_Nil [simp]: "emit c [] s = Ok s"
  by (cases s) (simp add: emit_def weak_of_def)

lemma emit_emit: "bindR (emit c ps s) (emit c qs) = emit c (ps @ qs) s"
proof -
  obtain vm rcb where s: "s = (vm, rcb)" by (cases s)
  show ?thesis
    by (cases "foldR rc_do_work ps rcb") (auto simp: s emit_def foldR_append weak_of_def bindR_assoc)
qed

lemma emit_frame:
  assumes "emit c ps (vm, rcb) = Ok (vm', rcb')"
  shows "memory vm' = memory vm" "core_state vm' = core_state vm" "pinned_objects vm' = pinned_objects vm"
  using assms by (auto simp: emit_def)

lemma emit_then:
  assumes "\<And>vm' rcb'. emit c ps (vm, rcb) = Ok (vm', rcb') \<Longrightarrow> memory vm' = memory vm \<Longrightarrow>
      core_state vm' = core_state vm \<Longrightarrow> k (vm', rcb') = emit c qs (vm', rcb')"
  shows "bindR (emit c ps (vm, rcb)) k = emit c (ps @ qs) (vm, rcb)"
proof -
  have "bindR (emit c ps (vm, rcb)) k = bindR (emit c ps (vm, rcb)) (emit c qs)"
    by (rule bindR_cong [OF refl]) (use assms emit_frame in \<open>metis surj_pair\<close>)
  then show ?thesis by (simp add: emit_emit)
qed


section \<open>Marking refines the specification\<close>

text \<open>
  \<open>reports c m t f ps\<close>: in every state over the memory \<open>m\<close> and the mmtk-core state \<open>t\<close>,
  the operation \<open>f\<close> reports the roots \<open>ps\<close>.
\<close>

definition reports ::
    "'a upcalls_scheme \<Rightarrow> mem \<Rightarrow> 't \<Rightarrow> (('t, 'f) mark_state \<Rightarrow> ('t, 'f) mark_state res) \<Rightarrow> u64 list \<Rightarrow> bool" where
  "reports c m t f ps \<longleftrightarrow>
     (\<forall>vm rcb. memory vm = m \<and> core_state vm = t \<longrightarrow> f (vm, rcb) = emit c ps (vm, rcb))"

lemma reportsI:
  "(\<And>vm rcb. memory vm = m \<Longrightarrow> core_state vm = t \<Longrightarrow> f (vm, rcb) = emit c ps (vm, rcb)) \<Longrightarrow> reports c m t f ps"
  by (simp add: reports_def)

lemma reportsD:
  "reports c m t f ps \<Longrightarrow> memory vm = m \<Longrightarrow> core_state vm = t \<Longrightarrow> f (vm, rcb) = emit c ps (vm, rcb)"
  unfolding reports_def by blast

lemma reports_nothing [simp]: "reports c m t (\<lambda>s. Ok s) []"
  by (simp add: reports_def)

lemma reports_seq:
  assumes "reports c m t f ps" "reports c m t g qs"
  shows "reports c m t (\<lambda>s. bindR (f s) g) (ps @ qs)"
proof (rule reportsI)
  fix vm :: "_ vm" and rcb assume s: "memory vm = m" "core_state vm = t"
  show "bindR (f (vm, rcb)) g = emit c (ps @ qs) (vm, rcb)"
    unfolding reportsD [OF assms(1) s] by (rule emit_then) (use s assms(2) in \<open>simp add: reportsD\<close>)
qed

lemma reports_fold:
  assumes "collectR r xs = Ok ps" "\<And>x qs. x \<in> set xs \<Longrightarrow> r x = Ok qs \<Longrightarrow> reports c m t (f x) qs"
  shows "reports c m t (foldR f xs) ps"
  using assms
proof (induction xs arbitrary: ps)
  case Nil
  then show ?case by (auto simp: reports_def)
next
  case (Cons x xs)
  then obtain qs rs where "r x = Ok qs" "collectR r xs = Ok rs" "ps = qs @ rs" by auto
  then show ?case
    using reports_seq [OF Cons.prems(2) [OF list.set_intros(1)], of qs "foldR f xs" rs] Cons
    by (simp add: reports_def)
qed

text \<open>
  The interface of a marker: \<open>roots\<close> is the specification of what \<open>mark\<close> reports of an object.
  The functions that follow references to objects rely on nothing else of it.
\<close>

locale root_marker =
  fixes c :: "'a upcalls_scheme" and mm :: "'t mmtk" and m :: mem and t :: 't
    and mark :: "u64 \<Rightarrow> ('t, 'f) mark_state \<Rightarrow> ('t, 'f) mark_state res" and roots :: "u64 \<Rightarrow> u64 list res"
  assumes mark_reports: "roots w = Ok ps \<Longrightarrow> reports c m t (mark w) ps"
begin

lemma reports_field:
  assumes "field_roots mm t roots w = Ok ps"
  shows "reports c m t (mark_field_with mm mark w) ps"
  using assms mark_reports by (auto simp: reports_def mark_field_with_def field_roots_def is_object_def split: if_splits)

lemma reports_lock_words:
  assumes "lock_roots c mm m t roots obj = Ok ps"
  shows "reports c m t (mark_lock_words_with c mm mark obj) ps"
proof (cases "uses_lockword c \<and> obj \<noteq> 0")
  case False
  then show ?thesis using assms by (auto simp: lock_roots_def mark_lock_words_with_def reports_def)
next
  case True
  let ?r = "\<lambda>l. if field_is_inflated_lock l then field_roots mm t roots (field_alligned_lock_ref l) else Ok []"
  let ?f = "\<lambda>l. if field_is_inflated_lock l then mark_field_with mm mark (field_alligned_lock_ref l) else Ok"
  obtain rtti l ps1 k ps2 where l: "obj_rtti c m obj = Ok rtti" "load64 m (rtti_lock_word_addr c rtti) = Ok l"
    "?r l = Ok ps1" "obj_lock_word c m obj = Ok k" "?r k = Ok ps2" "ps = ps1 @ ps2"
    using assms True by (auto simp: lock_roots_def)
  have f: "reports c m t (?f l) qs" if "?r l = Ok qs" for l qs
    using that by (auto intro: reports_field split: if_splits)
  show ?thesis
  proof (rule reportsI)
    fix vm :: "_ vm" and rcb assume s: "memory vm = m" "core_state vm = t"
    have "mark_lock_words_with c mm mark obj (vm, rcb) = bindR (?f l (vm, rcb))
        (\<lambda>s. bindR (obj_lock_word c (memory (fst s)) obj) (\<lambda>k. ?f k s))"
      using True l s by (auto simp: mark_lock_words_with_def intro!: bindR_cong)
    also have "\<dots> = bindR (emit c ps1 (vm, rcb)) (\<lambda>s. bindR (obj_lock_word c (memory (fst s)) obj) (\<lambda>k. ?f k s))"
      using reportsD [OF f [OF l(3)] s, of rcb] by simp
    also have "\<dots> = emit c (ps1 @ ps2) (vm, rcb)"
      by (rule emit_then) (use s l(4) reportsD [OF f [OF l(5)]] in simp)
    finally show "mark_lock_words_with c mm mark obj (vm, rcb) = emit c ps (vm, rcb)"
      by (simp add: l(6))
  qed
qed

end

text \<open>\<open>mmtk_mark_object\<close> is a marker for \<open>roots_of\<close> at every depth, by its recursion.\<close>

lemma mark_object_step:
  fixes mm :: "'t mmtk"
  assumes rec: "root_marker c m t (mmtk_mark_object c mm depth :: u64 \<Rightarrow> ('t, 'f) mark_state \<Rightarrow> _) (roots_of c mm m t depth)"
    and roots: "roots_of c mm m t (Suc depth) obj = Ok ps"
  shows "reports c m t (mmtk_mark_object c mm (Suc depth) obj :: ('t, 'f) mark_state \<Rightarrow> _) ps"
proof -
  from roots obtain qs weak where
    rtti: "debug_assert c (bindR (obj_rtti c m obj) (\<lambda>rtti. Ok (rtti \<noteq> 0))) = Ok ()"
    and qs: "lock_roots c mm m t (roots_of c mm m t depth) obj = Ok qs"
    and weak: "is_weak_reference c m obj = Ok weak"
    and size: "debug_assert c (bindR (obj_size c m obj) (\<lambda>n. Ok (n \<noteq> 0))) = Ok ()"
    and ps: "ps = qs @ [obj]"
    by auto
  have locks: "reports c m t
      (mark_lock_words_with c mm (mmtk_mark_object c mm depth) obj :: ('t, 'f) mark_state \<Rightarrow> _) qs"
    by (rule root_marker.reports_lock_words [OF rec qs])
  show ?thesis
  proof (rule reportsI)
    fix vm :: "_ vm" and rcb :: "'f roots_closure \<times> 'f bufs" assume s: "memory vm = m" "core_state vm = t"
    have "mmtk_mark_object c mm (Suc depth) obj (vm, rcb) =
      bindR (emit c qs (vm, rcb)) (\<lambda>(vm, rcb).
      bindR (push_if_weak c obj vm) (\<lambda>vm.
      bindR (debug_assert c (bindR (obj_size c (memory vm) obj) (\<lambda>n. Ok (n \<noteq> 0)))) (\<lambda>_.
      bindR (rc_do_work obj rcb) (\<lambda>rcb. Ok (vm, rcb)))))"
      using rtti s reportsD [OF locks s, of rcb] by simp
    also have "\<dots> = emit c (qs @ [obj]) (vm, rcb)"
      by (rule emit_then)
         (use s weak size in \<open>auto simp: push_if_weak_def emit_def weak_of_def weak_ref_stack_push_def
            push_weak_upd_def bindR_def split: sum.splits\<close>)
    finally show "mmtk_mark_object c mm (Suc depth) obj (vm, rcb) = emit c ps (vm, rcb)"
      by (simp add: ps)
  qed
qed

interpretation objects: root_marker c mm m t "mmtk_mark_object c mm depth :: u64 \<Rightarrow> ('t, 'f) mark_state \<Rightarrow> _" "roots_of c mm m t depth"
  for c and mm :: "'t mmtk" and m t depth
proof (induction depth)
  case 0
  show ?case by unfold_locales simp
next
  case (Suc depth)
  show ?case by unfold_locales (rule mark_object_step [OF Suc.IH])
qed

lemmas reports_object = objects.mark_reports


section \<open>Ranges\<close>

lemma words_between_Cons:
  assumes "lo \<le> hi" "unat hi + 8 < 2 ^ 64"
  shows "words_between lo hi = lo # words_between (lo + 8) hi"
proof -
  have le: "unat lo \<le> unat hi" using assms(1) by (simp add: word_le_nat_alt)
  have f8: "unat (lo + 8) = unat lo + 8"
    using assms(2) le by (simp add: unat_word_ariths)
  let ?n = "(unat hi - unat lo) div 8"
  have n: "(if lo + 8 \<le> hi then (unat hi - unat (lo + 8)) div 8 + 1 else 0) = ?n"
    using le by (auto simp: f8 word_le_nat_alt div_if)
  have "[0..<?n + 1] = 0 # map Suc [0..<?n]"
    by (simp add: upt_conv_Cons map_Suc_upt)
  then show ?thesis
    using assms(1) by (simp add: words_between_def n algebra_simps)
qed

lemma words_between_Nil: "\<not> lo \<le> hi \<Longrightarrow> words_between lo hi = []"
  by (simp add: words_between_def)

lemma set_words_between:
  "set (words_between lo hi) =
     {lo + 8 * of_nat i | i. lo \<le> hi \<and> 8 * i \<le> unat hi - unat lo}"
  by (auto simp: words_between_def image_iff less_Suc_eq_le less_eq_div_iff_mult_less_eq algebra_simps)

lemma mark_range_loop_fold:
  fixes st :: "u64 list \<times> ('t, 'f) mark_state"
  assumes "unat hi + 8 < 2 ^ 64"
  shows "mark_range_loop c mm depth lo hi st =
    foldR (\<lambda>a st. bindR (load64 (memory (fst (snd st))) a) (\<lambda>w. mark_range_word c mm depth w st))
      (words_between lo hi) st"
proof (induction "unat hi + 8 - unat lo" arbitrary: lo st rule: less_induct)
  case less
  show ?case
  proof (cases "lo \<le> hi")
    case False
    then show ?thesis by (subst mark_range_loop.simps) (simp add: words_between_Nil)
  next
    case True
    then have le: "unat lo \<le> unat hi" by (simp add: word_le_nat_alt)
    then have f8: "unat (lo + 8) = unat lo + 8"
      using assms by (simp add: unat_word_ariths)
    have off: "ptr_offset lo 1 = Ok (lo + 8)"
      using ptr_offset_nat [of lo 1] le assms by simp
    have "mark_range_loop c mm depth (lo + 8) hi st' =
        foldR (\<lambda>a st. bindR (load64 (memory (fst (snd st))) a) (\<lambda>w. mark_range_word c mm depth w st))
          (words_between (lo + 8) hi) st'" for st' :: "u64 list \<times> ('t, 'f) mark_state"
      by (rule less.hyps) (use f8 le in simp)
    then show ?thesis
      using True words_between_Cons [OF True assms] off
      by (subst mark_range_loop.simps) (simp add: bindR_assoc)
  qed
qed

text \<open>Without pinning, the list of newly pinned words stays empty.\<close>

definition mark_candidate ::
    "'a upcalls_scheme \<Rightarrow> 't mmtk \<Rightarrow> nat \<Rightarrow> u64 \<Rightarrow> ('t, 'f) mark_state \<Rightarrow> ('t, 'f) mark_state res" where
  "mark_candidate c mm depth addr s =
     bindR (if is_word_in_heap mm addr then is_ptr_aligned c addr else Ok False) (\<lambda>candidate.
     if candidate then mmtk_mark_conservative c mm depth addr s else Ok s)"

lemma mark_range_word_unpinned:
  "\<not> object_pinning c \<Longrightarrow> mark_range_word c mm depth w ([], s) =
     bindR (mark_candidate c mm depth w s) (\<lambda>s. Ok ([], s))"
  by (cases s) (auto simp: mark_range_word_def mark_candidate_def pin_word_def bindR_assoc intro!: bindR_cong)

lemma foldR_pins:
  assumes "\<And>x s. F x ([], s) = bindR (f x s) (\<lambda>s. Ok ([], s))"
  shows "foldR F xs ([], s) = bindR (foldR f xs s) (\<lambda>s. Ok ([], s))"
  by (induction xs arbitrary: s) (auto simp: assms bindR_assoc intro!: bindR_cong)

lemma mark_range_unpinned:
  assumes "\<not> object_pinning c" "lo \<noteq> 0" "hi \<noteq> 0" "unat hi + 8 < 2 ^ 64"
  shows "mmtk_mark_range c mm depth lo hi s =
    foldR (\<lambda>a s. bindR (load64 (memory (fst s)) a) (\<lambda>w. mark_candidate c mm depth w s)) (words_between lo hi) s"
proof -
  have "mark_range_loop c mm depth lo hi ([], s) =
    bindR (foldR (\<lambda>a s. bindR (load64 (memory (fst s)) a) (\<lambda>w. mark_candidate c mm depth w s))
      (words_between lo hi) s) (\<lambda>s. Ok ([], s))"
    unfolding mark_range_loop_fold [OF assms(4)]
    by (rule foldR_pins) (simp add: mark_range_word_unpinned [OF assms(1)] bindR_assoc)
  then show ?thesis
    using assms(1-3) by (simp add: mmtk_mark_range_def append_pins_def bindR_assoc case_prod_beta)
qed

lemma reports_candidate:
  assumes "alignment_log c k" "word_roots c mm m t depth w = Ok ps"
  shows "reports c m t (mark_candidate c mm depth w) ps"
proof (rule reportsI)
  fix vm :: "_ vm" and rcb assume s: "memory vm = m" "core_state vm = t"
  show "mark_candidate c mm depth w (vm, rcb) = emit c ps (vm, rcb)"
  proof (cases "is_word_in_heap mm w \<and> take_bit k w = 0")
    case False
    then show ?thesis
      using assms by (auto simp: mark_candidate_def word_roots_def candidate_def ptr_simps)
  next
    case True
    then have mask: "w AND NOT (mask k) = w" by (simp add: and_not_mask_self)
    show ?thesis
    proof (cases "w \<noteq> 0 \<and> is_mmtk_object mm t w")
      case True
      then have "roots_of c mm m t depth w = Ok ps"
        using assms(2) \<open>is_word_in_heap mm w \<and> _\<close> assms(1)
        by (simp add: word_roots_def candidate_def ptr_simps)
      then show ?thesis
        using True \<open>is_word_in_heap mm w \<and> _\<close> assms(1) mask s
          reportsD [OF reports_object s, of c mm depth w ps rcb]
        by (simp add: mark_candidate_def mmtk_mark_conservative_def is_object_def ptr_simps Let_def)
    next
      case False
      then show ?thesis
        using assms \<open>is_word_in_heap mm w \<and> _\<close> mask s
        by (auto simp: mark_candidate_def mmtk_mark_conservative_def is_object_def ptr_simps Let_def
            word_roots_def candidate_def)
    qed
  qed
qed

lemma reports_range:
  assumes "alignment_log c k" "\<not> object_pinning c" "lo \<noteq> 0" "hi \<noteq> 0" "unat hi + 8 < 2 ^ 64"
    and "range_roots c mm m t depth lo hi = Ok ps"
  shows "reports c m t (mmtk_mark_range c mm depth lo hi) ps"
proof -
  have "reports c m t (foldR (\<lambda>a s. bindR (load64 (memory (fst s)) a) (\<lambda>w. mark_candidate c mm depth w s))
      (words_between lo hi)) ps"
  proof (rule reports_fold [OF assms(6) [unfolded range_roots_def]])
    fix a qs assume "bindR (load64 m a) (word_roots c mm m t depth) = Ok qs"
    then obtain w where "load64 m a = Ok w" "word_roots c mm m t depth w = Ok qs" by auto
    then show "reports c m t (\<lambda>s. bindR (load64 (memory (fst s)) a) (\<lambda>w. mark_candidate c mm depth w s)) qs"
      using reports_candidate [OF assms(1)] by (fastforce simp: reports_def)
  qed
  then show ?thesis
    by (simp add: reports_def mark_range_unpinned [OF assms(2-5)])
qed


section \<open>Threads, modules and whole scans\<close>

text \<open>The ranges the runtime reports for a thread are inside the address space.\<close>

definition ranges_ok :: "'a upcalls_scheme \<Rightarrow> u64 \<Rightarrow> bool" where
  "ranges_ok c tls \<longleftrightarrow>
     (let stack = get_stack_range c tls; rs = get_regs_range c tls in
      stack_top stack \<noteq> 0 \<and> stack_bottom stack \<noteq> 0 \<and> unat (stack_bottom stack) + 8 < 2 ^ 64 \<and>
      regs rs \<noteq> 0 \<and> unat (regs_size rs) < 2 ^ 60 \<and> unat (regs rs) + 8 * unat (regs_size rs) + 8 < 2 ^ 64)"

lemma reports_program_stack:
  assumes "alignment_log c k" "\<not> object_pinning c" "ranges_ok c tls"
    and "thread_roots c mm m t depth tls = Ok ps"
  shows "reports c m t (mmtk_mark_program_stack c mm depth tls :: ('t, 'f) mark_state \<Rightarrow> _) ps"
proof -
  define stack where "stack = get_stack_range c tls"
  define rs where "rs = get_regs_range c tls"
  let ?past = "regs rs + 8 * regs_size rs"
  note ok = assms(3) [unfolded ranges_ok_def Let_def, folded stack_def rs_def]
  obtain ps1 ps2 where
    ps: "range_roots c mm m t depth (stack_top stack) (stack_bottom stack) = Ok ps1"
      "range_roots c mm m t depth (regs rs) ?past = Ok ps2" "ps = ps1 @ ps2"
    using assms(4) by (auto simp: thread_roots_def Let_def stack_def rs_def)
  have uend: "unat ?past = unat (regs rs) + 8 * unat (regs_size rs)"
    using ok by (simp add: unat_word_ariths)
  have off: "ptr_offset (regs rs) (uint (regs_size rs)) = Ok ?past"
    using ptr_offset_nat [of "regs rs" "unat (regs_size rs)"] ok by simp
  have end0: "?past \<noteq> 0"
    using uend ok by (metis add_is_0 unat_eq_zero)
  have r1: "reports c m t
      (mmtk_mark_range c mm depth (stack_top stack) (stack_bottom stack) :: ('t, 'f) mark_state \<Rightarrow> _) ps1"
    by (rule reports_range [OF assms(1,2)]) (use ok ps in auto)
  have r2: "reports c m t (mmtk_mark_range c mm depth (regs rs) ?past :: ('t, 'f) mark_state \<Rightarrow> _) ps2"
    by (rule reports_range [OF assms(1,2)]) (use ok ps uend end0 in auto)
  have "mmtk_mark_program_stack c mm depth tls =
      (\<lambda>s :: ('t, 'f) mark_state. bindR (mmtk_mark_range c mm depth (stack_top stack) (stack_bottom stack) s)
        (mmtk_mark_range c mm depth (regs rs) ?past))"
    by (simp add: fun_eq_iff mmtk_mark_program_stack_def Let_def off flip: stack_def rs_def)
  then show ?thesis
    using reports_seq [OF r1 r2] by (simp add: ps(3))
qed

lemma reports_modules:
  assumes "\<not> object_pinning c" "module_roots c mm m t depth = Ok ps"
  shows "reports c m t (mmtk_mark_modules c mm depth :: ('t, 'f) mark_state \<Rightarrow> _) ps"
proof -
  let ?f = "\<lambda>i (s :: ('t, 'f) mark_state). bindR (ptr_offset (get_modules c) i) (\<lambda>edge. bindR (load64 (memory (fst s)) edge)
    (\<lambda>w. mmtk_mark_field c mm depth w s))"
  have fold: "reports c m t (foldR ?f [0..sint (get_modules_size c) - 1]) ps"
  proof (rule reports_fold [OF assms(2) [unfolded module_roots_def]])
    fix i qs
    assume "bindR (ptr_offset (get_modules c) i) (\<lambda>edge. bindR (load64 m edge) (\<lambda>w.
       field_roots mm t (roots_of c mm m t depth) w)) = Ok qs"
    then obtain edge w where w: "ptr_offset (get_modules c) i = Ok edge" "load64 m edge = Ok w"
      "field_roots mm t (roots_of c mm m t depth) w = Ok qs" by auto
    have "reports c m t (mmtk_mark_field c mm depth w :: ('t, 'f) mark_state \<Rightarrow> _) qs"
      unfolding mmtk_mark_field_def by (rule objects.reports_field [OF w(3)])
    then show "reports c m t (?f i) qs"
      using w(1,2) by (simp add: reports_def)
  qed
  have "foldR (mark_module c mm depth) xs ([], s) = bindR (foldR ?f xs s) (\<lambda>s. Ok ([], s))" for xs s
    by (rule foldR_pins) (use assms(1) in \<open>simp add: mark_module_def pin_word_def case_prod_beta bindR_assoc\<close>)
  then have "mmtk_mark_modules c mm depth s = foldR ?f [0..sint (get_modules_size c) - 1] s" for s
    using assms(1) by (simp add: mmtk_mark_modules_def append_pins_def case_prod_beta bindR_assoc)
  then show ?thesis using fold by (simp add: reports_def)
qed

text \<open>A scan feeds its roots through one \<open>RootsClosure\<close>, from creation to drop.\<close>

lemma with_roots_closure_run:
  assumes "reports c (memory vm) (core_state vm) f ps"
  shows "with_roots_closure create f (vm, b) =
    bindR (rc_run (to_nodes_closure create) ps b) (\<lambda>b. Ok (push_weak_upd (weak_of c (memory vm) ps) vm, b))"
proof (cases "rc_new (to_nodes_closure create) b")
  case (Inr rcb)
  then show ?thesis
    by (cases "foldR rc_do_work ps rcb")
       (simp_all add: with_roots_closure_def rc_run_def reportsD [OF assms refl refl] emit_def)
qed (simp add: with_roots_closure_def rc_run_def)

text \<open>
  \<open>delivered create ps b b'\<close>: from \<open>b\<close> to \<open>b'\<close> exactly the roots \<open>ps\<close> went to the factory,
  in packets within the capacity, and no allocation was leaked.
\<close>

definition delivered :: "(u64 list \<Rightarrow> 'f \<Rightarrow> 'f) \<Rightarrow> u64 list \<Rightarrow> 'f bufs \<Rightarrow> 'f bufs \<Rightarrow> bool" where
  "delivered create ps b b' \<longleftrightarrow>
     (\<exists>packets. factory b' = fold create packets (factory b) \<and> concat packets = ps \<and>
       list_all (\<lambda>p. p \<noteq> [] \<and> length p \<le> WORK_PACKET_CAPACITY) packets) \<and>
     allocs b' = allocs b \<and> fresh_ok b'"

lemma run_delivered:
  assumes "fresh_ok b"
  obtains b' where "rc_run (to_nodes_closure create) ps b = Ok b'" "delivered create ps b b'"
proof -
  have "list_all (\<lambda>p. p \<noteq> [] \<and> length p \<le> WORK_PACKET_CAPACITY) (chunks WORK_PACKET_CAPACITY ps)"
    using chunks_packet [where n = WORK_PACKET_CAPACITY and xs = ps] by (auto simp: list_all_iff)
  then show ?thesis
    using nodes.run_delivers [OF assms, of create ps] concat_chunks [OF nodes.cap_pos, of ps] that
    unfolding delivered_def by blast
qed

lemma with_roots_closure_delivers:
  assumes "fresh_ok b" "reports c (memory vm) (core_state vm) f ps"
  shows "\<exists>b'. with_roots_closure create f (vm, b) = Ok (push_weak_upd (weak_of c (memory vm) ps) vm, b') \<and>
    delivered create ps b b'"
proof -
  obtain b' where "rc_run (to_nodes_closure create) ps b = Ok b'" "delivered create ps b b'"
    by (rule run_delivered [OF assms(1)])
  then show ?thesis by (simp add: with_roots_closure_run [OF assms(2)])
qed

end
