(* ===== verification/Root_Scans.thy ===== *)
theory Root_Scans
  imports Scanning_Spec
begin

text \<open>
  What a whole root scan of \<open>src/mmtk/src/scanning.rs\<close> guarantees: the thread list is
  followed to its end, the roots of every thread and module reach the work factory in
  packets, conservative scanning misses no object and reports nothing else, and no scan
  writes the memory. Two theorems mark where the scan is not what a reader expects: the
  word after the saved registers is read too, and the recursion over monitors has no
  visited check.
\<close>

section \<open>The thread list\<close>

text \<open>The null-terminated list of the runtime's thread nodes, starting at \<open>head\<close>.\<close>

fun thread_list :: "mem \<Rightarrow> u64 \<Rightarrow> u64 list \<Rightarrow> bool" where
  "thread_list m head [] \<longleftrightarrow> head = 0"
| "thread_list m head (t # ts) \<longleftrightarrow>
     head \<noteq> 0 \<and> load64 m (field MutatorThreadNode ''value'' head) = Ok t \<and>
     (\<exists>next. load64 m (field MutatorThreadNode ''next'' head) = Ok next \<and> thread_list m next ts)"

definition all_thread_roots ::
    "'a upcalls_scheme \<Rightarrow> 't mmtk \<Rightarrow> mem \<Rightarrow> 't \<Rightarrow> nat \<Rightarrow> u64 list \<Rightarrow> u64 list res" where
  "all_thread_roots c mm m t depth ts = collectR (thread_roots c mm m t depth) ts"

lemma mark_threads_reports:
  assumes "alignment_log c k" "\<not> object_pinning c" "list_all (ranges_ok c) ts"
    and "thread_list m head ts" "all_thread_roots c mm m t depth ts = Ok ps"
    and "memory vm = m" "core_state vm = t"
  shows "mark_threads c mm depth head (vm, rcb) = Some (emit c ps (vm, rcb))"
  using assms(3-7)
proof (induction ts arbitrary: head ps vm rcb)
  case Nil
  then show ?case by (simp add: all_thread_roots_def mark_threads.simps)
next
  case (Cons th ts)
  then obtain "next" qs rs where n: "head \<noteq> 0" "load64 m (field MutatorThreadNode ''value'' head) = Ok th"
    "load64 m (field MutatorThreadNode ''next'' head) = Ok next" "thread_list m next ts"
    and ps: "thread_roots c mm m t depth th = Ok qs" "all_thread_roots c mm m t depth ts = Ok rs" "ps = qs @ rs"
    by (auto simp: all_thread_roots_def)
  have mark: "mmtk_mark_program_stack c mm depth th (vm, rcb) = emit c qs (vm, rcb)"
    by (rule reportsD [OF reports_program_stack [OF assms(1,2) _ ps(1)] Cons.prems(4,5)])
       (use Cons.prems(1) in simp)
  show ?case
  proof (cases "emit c qs (vm, rcb)")
    case (Inl e)
    then have "emit c ps (vm, rcb) = Err e" by (simp add: ps(3) flip: emit_emit)
    then show ?thesis
      using n Inl mark Cons.prems(4) by (subst mark_threads.simps) simp
  next
    case (Inr s')
    obtain vm' rcb' where s': "s' = (vm', rcb')" by (cases s')
    note frame = emit_frame [OF Inr [unfolded s']]
    have "mark_threads c mm depth next (vm', rcb') = Some (emit c rs (vm', rcb'))"
      by (rule Cons.IH [OF _ n(4) ps(2)]) (use frame Cons.prems in simp_all)
    moreover have "emit c ps (vm, rcb) = emit c rs (vm', rcb')"
      using Inr by (simp add: ps(3) s' flip: emit_emit)
    ultimately show ?thesis
      using n Inr s' mark frame Cons.prems(4) by (subst mark_threads.simps) simp
  qed
qed


section \<open>Scans read only\<close>

text \<open>No operation of root scanning writes the memory, whatever it finds there.\<close>

definition keeps :: "('s \<Rightarrow> 'x) \<Rightarrow> ('s \<Rightarrow> 's res) \<Rightarrow> bool" where
  "keeps P f \<longleftrightarrow> (\<forall>s s'. f s = Ok s' \<longrightarrow> P s' = P s)"

lemma keepsI: "(\<And>s s'. f s = Ok s' \<Longrightarrow> P s' = P s) \<Longrightarrow> keeps P f"
  by (simp add: keeps_def)

lemma keepsD: "keeps P f \<Longrightarrow> f s = Ok s' \<Longrightarrow> P s' = P s"
  unfolding keeps_def by blast

text \<open>Marking moreover leaves mmtk-core's state and the binding alone.\<close>

definition frame :: "'t vm \<times> 'r \<Rightarrow> mem \<times> 't \<times> bool \<times> u64 list" where
  "frame s = (memory (fst s), core_state (fst s), binding_set (fst s), pinned_objects (fst s))"

lemma frameD:
  assumes "keeps frame f" "f s = Ok s'"
  shows "memory (fst s') = memory (fst s)" "core_state (fst s') = core_state (fst s)"
    "binding_set (fst s') = binding_set (fst s)" "pinned_objects (fst s') = pinned_objects (fst s)"
  using keepsD [OF assms] by (simp_all add: frame_def)

lemma keeps_foldR:
  assumes "\<And>x. x \<in> set xs \<Longrightarrow> keeps P (f x)"
  shows "keeps P (foldR f xs)"
proof (rule keepsI)
  fix s s' assume run: "foldR f xs s = Ok s'"
  show "P s' = P s"
    by (rule foldR_invariant [OF run]) (use keepsD [OF assms] in auto)
qed

lemma mark_field_keeps: "keeps frame (rec fld) \<Longrightarrow> keeps frame (mark_field_with mm rec fld)"
  by (auto simp: keeps_def mark_field_with_def)

lemma mark_lock_words_keeps:
  assumes "\<And>w. keeps frame (rec w)"
  shows "keeps frame (mark_lock_words_with c mm rec obj)"
proof -
  note field = keepsD [OF mark_field_keeps [OF assms]]
  show ?thesis
    by (rule keepsI)
       (auto simp: mark_lock_words_with_def split: if_splits dest!: field)
qed

lemma mark_object_keeps: "keeps frame (mmtk_mark_object c mm depth obj)"
proof (induction depth arbitrary: obj)
  case 0
  then show ?case by (simp add: keeps_def)
next
  case (Suc depth)
  note locks = keepsD [OF mark_lock_words_keeps [OF Suc]]
  show ?case
    by (rule keepsI)
       (auto simp: push_if_weak_def weak_ref_stack_push_def frame_def [of "(_, _)"] split: if_splits prod.splits
         dest!: locks)
qed

lemma mark_conservative_keeps: "keeps frame (mmtk_mark_conservative c mm depth a)"
  by (rule keepsI)
     (auto simp: mmtk_mark_conservative_def Let_def split: if_splits
       dest!: keepsD [OF mark_object_keeps])

lemma pin_word_memory [simp]: "memory (fst (snd (pin_word c mm w st))) = memory (fst (snd st))"
  by (auto simp: pin_word_def split: prod.splits)

lemma append_pins_memory: "append_pins c st = Ok s' \<Longrightarrow> memory (fst s') = memory (fst (snd st))"
  by (auto simp: append_pins_def append_to_binding_def split: prod.splits if_splits)

lemma mark_range_word_keeps: "keeps (\<lambda>st. memory (fst (snd st))) (mark_range_word c mm depth w)"
  by (rule keepsI)
     (auto simp: mark_range_word_def case_prod_beta split: if_splits
       dest!: frameD(1) [OF mark_conservative_keeps])

lemma mark_range_loop_keeps:
  "mark_range_loop c mm depth a hi st = Ok st' \<Longrightarrow> memory (fst (snd st')) = memory (fst (snd st))"
proof (induction c mm depth a hi st arbitrary: st' rule: mark_range_loop.induct)
  case (1 c mm depth current "to" st)
  show ?case
  proof (cases "current \<le> to")
    case True
    with "1.prems" obtain w st1 "next" where step: "load64 (memory (fst (snd st))) current = Ok w"
      "mark_range_word c mm depth w st = Ok st1" "ptr_offset current 1 = Ok next"
      "mark_range_loop c mm depth next to st1 = Ok st'"
      by (subst (asm) mark_range_loop.simps) (simp del: split_paired_Ex, elim bindR_OkE, blast)
    show ?thesis
      using "1.IH" [OF True step(1-4)] keepsD [OF mark_range_word_keeps step(2)] by simp
  next
    case False
    with "1.prems" show ?thesis by (simp add: mark_range_loop.simps)
  qed
qed

lemma mark_range_keeps: "keeps (\<lambda>s. memory (fst s)) (mmtk_mark_range c mm depth lo hi)"
  by (rule keepsI) (auto simp: mmtk_mark_range_def dest!: mark_range_loop_keeps append_pins_memory)

lemma mark_program_stack_keeps: "keeps (\<lambda>s. memory (fst s)) (mmtk_mark_program_stack c mm depth tls)"
  by (rule keepsI)
     (auto simp: mmtk_mark_program_stack_def Let_def dest!: keepsD [OF mark_range_keeps])

lemma mark_modules_keeps: "keeps (\<lambda>s. memory (fst s)) (mmtk_mark_modules c mm depth)"
proof -
  have field: "keeps frame (mmtk_mark_field c mm depth w)" for w
    unfolding mmtk_mark_field_def by (rule mark_field_keeps [OF mark_object_keeps])
  have "keeps (\<lambda>st. memory (fst (snd st))) (mark_module c mm depth i)" for i
    by (rule keepsI)
       (auto simp: mark_module_def case_prod_beta dest!: frameD(1) [OF field])
  then have mods: "keeps (\<lambda>st. memory (fst (snd st))) (foldR (mark_module c mm depth) xs)" for xs
    by (intro keeps_foldR)
  show ?thesis
    by (rule keepsI)
       (auto simp: mmtk_mark_modules_def dest!: append_pins_memory keepsD [OF mods])
qed

text \<open>One node of the thread list.\<close>

definition thread_step ::
    "'a upcalls_scheme \<Rightarrow> 't mmtk \<Rightarrow> nat \<Rightarrow> u64 \<Rightarrow> ('t, 'f) mark_state \<Rightarrow> (u64 \<times> ('t, 'f) mark_state) res" where
  "thread_step c mm depth head s =
     bindR (load64 (memory (fst s)) (field MutatorThreadNode ''value'' head)) (\<lambda>thread.
     bindR (mmtk_mark_program_stack c mm depth thread s) (\<lambda>s.
     bindR (load64 (memory (fst s)) (field MutatorThreadNode ''next'' head)) (\<lambda>next. Ok (next, s))))"

lemma mark_threads_step:
  "mark_threads c mm depth head s =
     (if head = 0 then Some (Ok s)
      else case thread_step c mm depth head s of
        Inl e \<Rightarrow> Some (Err e) | Inr r \<Rightarrow> mark_threads c mm depth (fst r) (snd r))"
  by (subst mark_threads.simps) (simp add: thread_step_def)

text \<open>The walks that return, by induction over the nodes they pass.\<close>

lemma mark_threads_induct [consumes 1, case_names stop fail node]:
  assumes "mark_threads c mm depth head s = Some r"
    and "\<And>s. P 0 s (Ok s)"
    and "\<And>head s e. head \<noteq> 0 \<Longrightarrow> thread_step c mm depth head s = Err e \<Longrightarrow> P head s (Err e)"
    and "\<And>head s nxt s1 r. head \<noteq> 0 \<Longrightarrow> thread_step c mm depth head s = Ok (nxt, s1) \<Longrightarrow> P nxt s1 r \<Longrightarrow> P head s r"
  shows "P head s r"
proof -
  have "c = c \<and> mm = mm \<and> depth = depth \<longrightarrow> P head s r"
  proof (rule mark_threads.raw_induct [OF _ assms(1), where P = "\<lambda>c' mm' depth' head s r.
      c' = c \<and> mm' = mm \<and> depth' = depth \<longrightarrow> P head s r"], intro impI, elim conjE)
    fix walk c' mm' depth' head s r
    assume IH: "\<And>c' mm' depth' head s r. walk c' mm' depth' head s = Some r \<Longrightarrow>
        c' = c \<and> mm' = mm \<and> depth' = depth \<longrightarrow> P head s r"
      and run: "(if head = 0 then Some (Ok s)
      else (case bindR (load64 (memory (fst s)) (field MutatorThreadNode ''value'' head)) (\<lambda>thread.
                 bindR (mmtk_mark_program_stack c' mm' depth' thread s) (\<lambda>s.
                 bindR (load64 (memory (fst s)) (field MutatorThreadNode ''next'' head)) (\<lambda>next.
                 Ok (next, s)))) of
              Inl e \<Rightarrow> Some (Err e)
            | Inr r \<Rightarrow> walk c' mm' depth' (fst r) (snd r))) = Some r"
      and eq: "c' = c" "mm' = mm" "depth' = depth"
    have run: "(if head = 0 then Some (Ok s)
      else (case thread_step c mm depth head s of
              Inl e \<Rightarrow> Some (Err e) | Inr r \<Rightarrow> walk c mm depth (fst r) (snd r))) = Some r"
      using run unfolding eq thread_step_def .
    show "P head s r"
    proof (cases "head = 0")
      case True
      then show ?thesis using run assms(2) [of s] by simp
    next
      case False
      show ?thesis
      proof (cases "thread_step c mm depth head s")
        case (Inl e)
        then show ?thesis using run False assms(3) [of head s e] by simp
      next
        case (Inr q)
        then have "walk c mm depth (fst q) (snd q) = Some r" using run False by simp
        then have "P (fst q) (snd q) r" using IH by blast
        with Inr False show ?thesis by (intro assms(4) [of head s "fst q" "snd q"]) simp_all
      qed
    qed
  qed
  then show ?thesis by simp
qed

lemma thread_step_Ok:
  assumes "thread_step c mm depth head s = Ok (nxt, s1)"
  obtains th where "load64 (memory (fst s)) (field MutatorThreadNode ''value'' head) = Ok th"
    "mmtk_mark_program_stack c mm depth th s = Ok s1" "memory (fst s1) = memory (fst s)"
    "load64 (memory (fst s)) (field MutatorThreadNode ''next'' head) = Ok nxt"
proof -
  obtain th where th: "load64 (memory (fst s)) (field MutatorThreadNode ''value'' head) = Ok th"
    "mmtk_mark_program_stack c mm depth th s = Ok s1"
    "load64 (memory (fst s1)) (field MutatorThreadNode ''next'' head) = Ok nxt"
    using assms unfolding thread_step_def by blast
  have "memory (fst s1) = memory (fst s)" by (rule keepsD [OF mark_program_stack_keeps th(2)])
  with th show thesis using that by simp
qed

text \<open>A walk of the thread list that comes to its end kept the memory and had a list to follow.\<close>

lemma mark_threads_Ok:
  assumes "mark_threads c mm depth head s = Some r" "r = Ok s'"
  shows "memory (fst s') = memory (fst s) \<and> (\<exists>ts. thread_list (memory (fst s)) head ts)"
  using assms
proof (induction rule: mark_threads_induct)
  case (stop s)
  then show ?case by (auto intro: exI [of _ "[]"])
next
  case (node head s nxt s1 r)
  obtain th where "load64 (memory (fst s)) (field MutatorThreadNode ''value'' head) = Ok th"
    "memory (fst s1) = memory (fst s)" "load64 (memory (fst s)) (field MutatorThreadNode ''next'' head) = Ok nxt"
    using node.hyps(2) by (rule thread_step_Ok)
  moreover obtain ts where "memory (fst s') = memory (fst s1)" "thread_list (memory (fst s1)) nxt ts"
    using node.IH node.prems by blast
  ultimately show ?case using node.hyps(1) by (auto intro!: exI [of _ "th # ts"])
qed simp

text \<open>What every thread's scan keeps, the walk keeps.\<close>

lemma mark_threads_invariant:
  assumes "mark_threads c mm depth head s = Some r" "r = Ok s'" "P s"
    and thread: "\<And>tls s s'. P s \<Longrightarrow> mmtk_mark_program_stack c mm depth tls s = Ok s' \<Longrightarrow> P s'"
  shows "P s'"
  using assms(1-3)
proof (induction rule: mark_threads_induct)
  case (node head s nxt s1 r)
  then show ?case using thread by (metis thread_step_Ok)
qed simp_all


section \<open>Reads past the end\<close>

text \<open>A range scan that succeeds has read every word of the range, its upper bound included.\<close>

lemma mark_range_reads:
  assumes "mmtk_mark_range c mm depth lo hi s = Ok s'" "unat hi + 8 < 2 ^ 64" "a \<in> set (words_between lo hi)"
  shows "\<exists>w. load64 (memory (fst s)) a = Ok w"
proof -
  let ?f = "\<lambda>a st. bindR (load64 (memory (fst (snd st))) a) (\<lambda>w. mark_range_word c mm depth w st)"
  have keep: "keeps (\<lambda>st. memory (fst (snd st))) (?f x)" for x
    by (rule keepsI) (auto dest!: keepsD [OF mark_range_word_keeps])
  obtain st where "foldR ?f (words_between lo hi) ([], s) = Ok st"
    using assms(1) unfolding mmtk_mark_range_def mark_range_loop_fold [OF assms(2)] by blast
  moreover obtain xs ys where "words_between lo hi = xs @ a # ys"
    using assms(3) by (auto dest: split_list)
  ultimately obtain st1 st2 where st: "foldR ?f xs ([], s) = Ok st1" "?f a st1 = Ok st2"
    by (auto simp: foldR_append)
  have "memory (fst (snd st1)) = memory (fst s)"
    using keepsD [OF keeps_foldR [OF keep] st(1)] by simp
  with st(2) show ?thesis by auto
qed

lemma last_word_between:
  "unat lo + 8 * unat n < 2 ^ 64 \<Longrightarrow> lo + 8 * n \<in> set (words_between lo (lo + 8 * n))"
  unfolding set_words_between
  by (auto simp: word_le_nat_alt unat_word_ariths intro!: exI [of _ "unat n"])

lemma program_stack_reads_regs_end:
  assumes "mmtk_mark_program_stack c mm depth tls s = Ok s'" "ranges_ok c tls"
  shows "\<exists>w. load64 (memory (fst s)) (regs (get_regs_range c tls) + 8 * regs_size (get_regs_range c tls)) = Ok w"
proof -
  define rs where "rs = get_regs_range c tls"
  let ?past = "regs rs + 8 * regs_size rs"
  note ok = assms(2) [unfolded ranges_ok_def Let_def, folded rs_def]
  have uend: "unat ?past = unat (regs rs) + 8 * unat (regs_size rs)"
    using ok by (simp add: unat_word_ariths)
  have off: "ptr_offset (regs rs) (uint (regs_size rs)) = Ok ?past"
    using ptr_offset_nat [of "regs rs" "unat (regs_size rs)"] ok by simp
  obtain s1 where s1: "mmtk_mark_range c mm depth (stack_top (get_stack_range c tls))
      (stack_bottom (get_stack_range c tls)) s = Ok s1"
    "mmtk_mark_range c mm depth (regs rs) ?past s1 = Ok s'"
    using assms(1) by (auto simp: mmtk_mark_program_stack_def Let_def off simp flip: rs_def)
  have "\<exists>w. load64 (memory (fst s1)) ?past = Ok w"
    by (rule mark_range_reads [OF s1(2)]) (use ok uend last_word_between in auto)
  then show ?thesis
    using keepsD [OF mark_range_keeps s1(1)] by (simp add: rs_def)
qed


section \<open>The depth of marking\<close>

text \<open>More depth never changes the outcome of marking.\<close>

lemma field_roots_mono:
  "field_roots mm t r w = Ok ps \<Longrightarrow> (\<And>qs. r w = Ok qs \<Longrightarrow> r' w = Ok qs) \<Longrightarrow> field_roots mm t r' w = Ok ps"
  by (auto simp: field_roots_def split: if_splits)

lemma lock_roots_mono:
  "lock_roots c mm m t r obj = Ok ps \<Longrightarrow> (\<And>w qs. r w = Ok qs \<Longrightarrow> r' w = Ok qs) \<Longrightarrow>
   lock_roots c mm m t r' obj = Ok ps"
  by (auto simp: lock_roots_def field_roots_def split: if_splits)

lemma roots_of_Suc: "roots_of c mm m t depth obj = Ok ps \<Longrightarrow> roots_of c mm m t (Suc depth) obj = Ok ps"
proof (induction depth arbitrary: obj ps)
  case 0
  then show ?case by simp
next
  case (Suc depth)
  then obtain qs weak where
    "debug_assert c (bindR (obj_rtti c m obj) (\<lambda>rtti. Ok (rtti \<noteq> 0))) = Ok ()"
    and qs: "lock_roots c mm m t (roots_of c mm m t depth) obj = Ok qs"
    and "is_weak_reference c m obj = Ok weak"
    "debug_assert c (bindR (obj_size c m obj) (\<lambda>n. Ok (n \<noteq> 0))) = Ok ()"
    "ps = qs @ [obj]"
    by auto
  then show ?case
    using lock_roots_mono [OF qs, of "roots_of c mm m t (Suc depth)"] Suc.IH
    by (subst roots_of.simps) (simp del: roots_of.simps)
qed

text \<open>
  \<open>monitors rl ol\<close>: the monitors that the lock words of an object and of its type refer to.
  \<open>markable c mm m t S rank\<close>: the objects of \<open>S\<close> have readable headers, their monitors are in
  \<open>S\<close> and of lower rank.
\<close>

definition monitors :: "u64 \<Rightarrow> u64 \<Rightarrow> u64 list" where
  "monitors rl ol = map field_alligned_lock_ref (filter field_is_inflated_lock [rl, ol])"

definition markable ::
    "'a upcalls_scheme \<Rightarrow> 't mmtk \<Rightarrow> mem \<Rightarrow> 't \<Rightarrow> u64 set \<Rightarrow> (u64 \<Rightarrow> nat) \<Rightarrow> bool" where
  "markable c mm m t S rank \<longleftrightarrow>
     (\<forall>obj\<in>S. \<exists>rl ol. header_ok c m obj rl ol \<and>
       (\<forall>x\<in>set (monitors rl ol). is_word_in_heap mm x \<and> is_mmtk_object mm t x \<longrightarrow> x \<in> S \<and> rank x < rank obj))"

lemma roots_of_markable:
  assumes "markable c mm m t S rank"
  shows "obj \<in> S \<Longrightarrow> rank obj < depth \<Longrightarrow> \<exists>qs. roots_of c mm m t depth obj = Ok (qs @ [obj])"
proof (induction depth arbitrary: obj)
  case 0
  then show ?case by simp
next
  case (Suc depth)
  let ?r = "roots_of c mm m t depth"
  obtain rl ol where h: "header_ok c m obj rl ol" and
    mon: "\<And>x. x \<in> set (monitors rl ol) \<Longrightarrow> is_word_in_heap mm x \<Longrightarrow> is_mmtk_object mm t x \<Longrightarrow>
      x \<in> S \<and> rank x < rank obj"
    using assms Suc.prems(1) by (auto simp: markable_def)
  have sub: "\<exists>qs. field_roots mm t ?r x = Ok qs" if "x \<in> set (monitors rl ol)" for x
    using mon [OF that] Suc by (fastforce simp: field_roots_def)
  have "\<exists>qs. (if field_is_inflated_lock l then field_roots mm t ?r (field_alligned_lock_ref l) else Ok []) = Ok qs"
    if "l = rl \<or> l = ol" for l
    using that sub [of "field_alligned_lock_ref l"] by (auto simp: monitors_def)
  then obtain ps1 ps2 where
    "(if field_is_inflated_lock rl then field_roots mm t ?r (field_alligned_lock_ref rl) else Ok []) = Ok ps1"
    "(if field_is_inflated_lock ol then field_roots mm t ?r (field_alligned_lock_ref ol) else Ok []) = Ok ps2"
    by blast
  then have "\<exists>qs. lock_roots c mm m t ?r obj = Ok qs"
    using h by (auto simp: lock_roots_def header_ok_def)
  then show ?case
    using h by (auto simp: header_ok_def debug_assert_def)
qed


text \<open>What an object reports does not depend on the depth, once that is above its rank.\<close>

lemma roots_of_stable:
  assumes "markable c mm m t S rank" "x \<in> S" "rank x < depth"
  shows "roots_of c mm m t depth x = Ok (projr (roots_of c mm m t (Suc (rank x)) x))"
proof -
  obtain qs where qs: "roots_of c mm m t (Suc (rank x)) x = Ok qs"
    using roots_of_markable [OF assms(1,2), of "Suc (rank x)"] by auto
  have "roots_of c mm m t (Suc (rank x) + more) x = Ok qs" for more
    by (induction more) (use qs roots_of_Suc in \<open>simp_all del: roots_of.simps\<close>)
  from this [of "depth - Suc (rank x)"] show ?thesis using assms(3) qs by (simp del: roots_of.simps)
qed

text \<open>The monitors that marking an object follows, those of its type first.\<close>

definition followed_monitors ::
    "'a upcalls_scheme \<Rightarrow> 't mmtk \<Rightarrow> 't \<Rightarrow> u64 \<Rightarrow> u64 \<Rightarrow> u64 \<Rightarrow> u64 list" where
  "followed_monitors c mm t obj rl ol =
     (if uses_lockword c \<and> obj \<noteq> 0
      then filter (\<lambda>x. is_word_in_heap mm x \<and> is_mmtk_object mm t x) (monitors rl ol) else [])"

lemma roots_of_followed:
  assumes "markable c mm m t S rank" "x \<in> S" "header_ok c m x rl ol"
  shows "projr (roots_of c mm m t (Suc (rank x)) x) =
    concat (map (\<lambda>x. projr (roots_of c mm m t (Suc (rank x)) x)) (followed_monitors c mm t x rl ol)) @ [x]"
proof -
  let ?f = "\<lambda>x. projr (roots_of c mm m t (Suc (rank x)) x)" and ?r = "roots_of c mm m t (rank x)"
  let ?live = "\<lambda>x. is_word_in_heap mm x \<and> is_mmtk_object mm t x"
  obtain rl' ol' where h': "header_ok c m x rl' ol'"
    and low': "\<And>y. y \<in> set (monitors rl' ol') \<Longrightarrow> ?live y \<Longrightarrow> y \<in> S \<and> rank y < rank x"
    using assms(1,2) unfolding markable_def by blast
  have same: "rl' = rl \<and> ol' = ol" if "uses_lockword c"
    using h' assms(3) that by (auto simp: header_ok_def)
  have low: "y \<in> S \<and> rank y < rank x" if "uses_lockword c" "y \<in> set (monitors rl ol)" "?live y" for y
    using low' same that by blast
  have field: "field_roots mm t ?r y = Ok (if ?live y then ?f y else [])"
    if "uses_lockword c" "y \<in> set (monitors rl ol)" for y
    using low [OF that] roots_of_stable [OF assms(1), of y "rank x"] by (auto simp: field_roots_def simp del: roots_of.simps)
  have "lock_roots c mm m t ?r x = Ok (concat (map ?f (followed_monitors c mm t x rl ol)))"
  proof (cases "uses_lockword c \<and> x \<noteq> 0")
    case True
    let ?part = "\<lambda>l. concat (map ?f (filter ?live (map field_alligned_lock_ref (filter field_is_inflated_lock [l]))))"
    have lock: "(if field_is_inflated_lock l then field_roots mm t ?r (field_alligned_lock_ref l) else Ok []) = Ok (?part l)"
      if "l = rl \<or> l = ol" for l
    proof (cases "field_is_inflated_lock l")
      case True
      then have "field_alligned_lock_ref l \<in> set (monitors rl ol)" using that by (auto simp: monitors_def)
      with True field [of "field_alligned_lock_ref l"] \<open>uses_lockword c \<and> x \<noteq> 0\<close> show ?thesis
        by (simp del: roots_of.simps)
    qed simp
    have split: "concat (map ?f (followed_monitors c mm t x rl ol)) = ?part rl @ ?part ol"
      using True by (simp add: followed_monitors_def monitors_def del: roots_of.simps)
    obtain rtti where hdr: "obj_rtti c m x = Ok rtti" "load64 m (rtti_lock_word_addr c rtti) = Ok rl" "obj_lock_word c m x = Ok ol"
      using assms(3) True unfolding header_ok_def by blast
    have "lock_roots c mm m t ?r x = Ok (?part rl @ ?part ol)"
      unfolding lock_roots_def if_P [OF True] hdr bindR_Ok lock [of rl, OF disjI1 [OF refl]] lock [of ol, OF disjI2 [OF refl]] ..
    then show ?thesis unfolding split .
  next
    case False
    show ?thesis unfolding lock_roots_def followed_monitors_def if_not_P [OF False] by simp
  qed
  then show ?thesis
    using assms(3) by (auto simp: header_ok_def debug_assert_def)
qed


section \<open>Properties\<close>

text \<open>
  A small process: two objects, the second a weak reference to the first, referred to from
  a stack, a register and a module slot; one thread node.
\<close>

definition scan_mem :: mem where
  "scan_mem = word_mem (rtti_words 0x1000 5 24 0x2000 @ rtti_words 0x1100 30 24 0x2000 @
     obj_words 0x10000 0x1000 0 [0] @ obj_words 0x10040 0x1100 0 [0x10000] @
     [(0x7000, 0x10000), (0x7008, 0x10041), (0x7100, 0x10040), (0x7108, 3), (0x6000, 0x10000), (0x6008, 0),
      (0x5000, 0x5500), (0x5008, 0)])"

definition scan_vm :: "core vm" where
  "scan_vm = init_vm scan_mem (sample_core [0x10000, 0x10040])"

lemma scan_vm_simps [simp]:
  "memory scan_vm = scan_mem" "core_state scan_vm = sample_core [0x10000, 0x10040]"
  by (simp_all add: scan_vm_def)

lemma sample_ranges_ok [simp]: "ranges_ok sample_cfg tls"
  by (simp add: ranges_ok_def)

lemma sample_headers:
  "header_ok sample_cfg scan_mem 0x10000 0 0" "header_ok sample_cfg scan_mem 0x10040 0 0"
  "is_weak_reference sample_cfg scan_mem 0x10000 = Ok False"
  "is_weak_reference sample_cfg scan_mem 0x10040 = Ok True"
  by (auto simp: header_ok_def scan_mem_def abi_defs)

lemma roots_of_plain:
  assumes "header_ok c m obj rl ol" "\<not> field_is_inflated_lock rl" "\<not> field_is_inflated_lock ol"
  shows "roots_of c mm m t (Suc depth) obj = Ok [obj]"
  using assms by (auto simp: header_ok_def lock_roots_def debug_assert_def)

lemma sample_roots:
  "roots_of sample_cfg mm scan_mem t (Suc d) 0x10000 = Ok [0x10000]"
  "roots_of sample_cfg mm scan_mem t (Suc d) 0x10040 = Ok [0x10040]"
  by (simp_all add: roots_of_plain [OF sample_headers(1)] roots_of_plain [OF sample_headers(2)] lock_defs
      del: roots_of.simps)

lemma sample_words:
  "words_between 0x7000 0x7008 = [0x7000, 0x7008]" "words_between 0x7100 0x7108 = [0x7100, 0x7108]"
  by (simp_all add: words_between_Cons words_between_Nil)

lemma sample_thread_roots:
  "thread_roots sample_cfg sample_mmtk scan_mem (sample_core [0x10000, 0x10040]) (Suc 0) 0x5500 = Ok [0x10000, 0x10040]"
  "module_roots sample_cfg sample_mmtk scan_mem (sample_core [0x10000, 0x10040]) (Suc 0) = Ok [0x10000]"
proof -
  have loads: "load64 scan_mem 0x7000 = Ok 0x10000" "load64 scan_mem 0x7008 = Ok 0x10041"
    "load64 scan_mem 0x7100 = Ok 0x10040" "load64 scan_mem 0x7108 = Ok 3"
    "load64 scan_mem 0x6000 = Ok 0x10000" "load64 scan_mem 0x6008 = Ok 0"
    by (simp_all add: scan_mem_def abi_defs)
  have cand: "candidate sample_cfg sample_mmtk (sample_core [0x10000, 0x10040]) w \<longleftrightarrow>
      w = 0x10000 \<or> w = 0x10040" for w
    by (auto simp: candidate_def is_word_in_heap_def sample_mmtk_def sample_core_def)
  show "thread_roots sample_cfg sample_mmtk scan_mem (sample_core [0x10000, 0x10040]) (Suc 0) 0x5500
      = Ok [0x10000, 0x10040]"
    by (simp add: thread_roots_def range_roots_def sample_words loads word_roots_def cand sample_roots
        del: roots_of.simps)
  have upto: "[0..1] = [0, 1 :: int]" by (simp add: upto.simps)
  show "module_roots sample_cfg sample_mmtk scan_mem (sample_core [0x10000, 0x10040]) (Suc 0) = Ok [0x10000]"
    by (simp add: module_roots_def upto ptr_offset_def loads field_roots_def is_word_in_heap_def
        sample_mmtk_def sample_core_def sample_roots del: roots_of.simps)
qed

text \<open>
  The scan of a mutator thread reports exactly the roots of its stack and registers,
  in packets, leaves no buffer behind, and pushes the weak references among them.
\<close>

lemma scan_thread_delivers:
  assumes "alignment_log c k" "\<not> object_pinning c" "ranges_ok c tls" "fresh_ok b"
    and "thread_roots c mm (memory vm) (core_state vm) depth tls = Ok ps"
  shows "\<exists>b'. scan_roots_in_mutator_thread c mm create depth tls (vm, b)
      = Ok (push_weak_upd (weak_of c (memory vm) ps) vm, b') \<and> delivered create ps b b'"
  unfolding scan_roots_in_mutator_thread_def
  by (rule with_roots_closure_delivers [OF assms(4) reports_program_stack [OF assms(1-3,5)]])

lemma delivered_trans:
  assumes "delivered create ps b b1" "delivered create qs b1 b2"
  shows "delivered create (ps @ qs) b b2"
proof -
  obtain ks where ks: "factory b1 = fold create ks (factory b)" "concat ks = ps"
    "list_all (\<lambda>p. p \<noteq> [] \<and> length p \<le> WORK_PACKET_CAPACITY) ks"
    using assms(1) by (auto simp: delivered_def)
  obtain ls where ls: "factory b2 = fold create ls (factory b1)" "concat ls = qs"
    "list_all (\<lambda>p. p \<noteq> [] \<and> length p \<le> WORK_PACKET_CAPACITY) ls"
    using assms(2) by (auto simp: delivered_def)
  have "factory b2 = fold create (ks @ ls) (factory b)" "concat (ks @ ls) = ps @ qs"
    "list_all (\<lambda>p. p \<noteq> [] \<and> length p \<le> WORK_PACKET_CAPACITY) (ks @ ls)"
    using ks ls by simp_all
  moreover have "allocs b2 = allocs b" "fresh_ok b2" using assms by (simp_all add: delivered_def)
  ultimately show ?thesis unfolding delivered_def by blast
qed

lemma all_threads_delivered:
  assumes "alignment_log c k" "\<not> object_pinning c" "list_all (ranges_ok c) ts" "fresh_ok b"
    and "thread_list (memory vm) (get_mutator_threads c) ts"
    and "all_thread_roots c mm (memory vm) (core_state vm) depth ts = Ok ps"
  shows "\<exists>b'. scan_roots_in_all_mutator_threads c mm create depth (vm, b)
      = Some (Ok (push_weak_upd (weak_of c (memory vm) ps) vm, b')) \<and> delivered create ps b b'"
proof -
  obtain b' where b': "rc_run (to_nodes_closure create) ps b = Ok b'" "delivered create ps b b'"
    by (rule run_delivered [OF assms(4)])
  then obtain rcb rcb' where r: "rc_new (to_nodes_closure create) b = Ok rcb" "foldR rc_do_work ps rcb = Ok rcb'"
    "rc_drop rcb' = Ok b'"
    unfolding rc_run_def by blast
  have "mark_threads c mm depth (get_mutator_threads c) (vm, rcb) = Some (emit c ps (vm, rcb))"
    by (rule mark_threads_reports [OF assms(1-3,5,6) refl refl])
  then show ?thesis
    using r b' by (simp add: scan_roots_in_all_mutator_threads_def emit_def)
qed

lemma scan_vm_roots:
  assumes "alignment_log c k" "\<not> object_pinning c" "list_all (ranges_ok c) ts" "fresh_ok b"
    and "thread_list (memory vm) (get_mutator_threads c) ts"
    and "all_thread_roots c mm (memory vm) (core_state vm) depth ts = Ok ps"
    and "module_roots c mm (memory vm) (core_state vm) depth = Ok qs"
  shows "\<exists>b'. scan_vm_specific_roots c mm create depth (vm, b)
      = Some (Ok (push_weak_upd (weak_of c (memory vm) (ps @ qs)) vm, b')) \<and> delivered create (ps @ qs) b b'"
proof -
  let ?vm = "push_weak_upd (weak_of c (memory vm) ps) vm"
  obtain b1 where b1: "scan_roots_in_all_mutator_threads c mm create depth (vm, b) = Some (Ok (?vm, b1))"
    "delivered create ps b b1"
    using all_threads_delivered [OF assms(1-6)] by blast
  have "fresh_ok b1" using b1(2) by (simp add: delivered_def)
  moreover have "reports c (memory ?vm) (core_state ?vm) (mmtk_mark_modules c mm depth) qs"
    by (rule reports_modules) (use assms in simp_all)
  ultimately obtain b2 where
    "with_roots_closure create (mmtk_mark_modules c mm depth) (?vm, b1)
      = Ok (push_weak_upd (weak_of c (memory ?vm) qs) ?vm, b2)" "delivered create qs b1 b2"
    using with_roots_closure_delivers by blast
  then show ?thesis
    using b1 delivered_trans by (simp add: scan_vm_specific_roots_def weak_of_def) blast
qed

lemma sample_thread_list: "thread_list scan_mem 0x5000 [0x5500]"
  by (simp add: scan_mem_def abi_defs)

definition scannable ::
    "'a upcalls_scheme \<Rightarrow> 't mmtk \<Rightarrow> mem \<Rightarrow> 't \<Rightarrow> nat \<Rightarrow> u64 \<Rightarrow> u64 \<Rightarrow> bool" where
  "scannable c mm m t depth lo hi \<longleftrightarrow>
     (\<forall>a\<in>set (words_between lo hi). \<exists>w. load64 m a = Ok w \<and>
       (candidate c mm t w \<longrightarrow> (\<exists>qs. roots_of c mm m t depth w = Ok qs)))"

lemma collectR_total:
  "(\<And>x. x \<in> set xs \<Longrightarrow> \<exists>ps. f x = Ok ps) \<Longrightarrow> \<exists>ps. collectR f xs = Ok ps"
  by (induction xs) fastforce+

lemma collectR_set:
  "collectR f xs = Ok ps \<Longrightarrow> p \<in> set ps \<longleftrightarrow> (\<exists>x\<in>set xs. \<exists>qs. f x = Ok qs \<and> p \<in> set qs)"
  by (induction xs arbitrary: ps) auto

lemma range_roots_total: "scannable c mm m t depth lo hi \<Longrightarrow> \<exists>ps. range_roots c mm m t depth lo hi = Ok ps"
  unfolding range_roots_def scannable_def word_roots_def by (rule collectR_total) fastforce

lemma field_roots_sound:
  assumes "field_roots mm t r w = Ok ps" "p \<in> set ps"
    and "\<And>qs. is_word_in_heap mm w \<Longrightarrow> is_mmtk_object mm t w \<Longrightarrow> r w = Ok qs \<Longrightarrow>
      \<forall>p\<in>set qs. is_word_in_heap mm p \<and> is_mmtk_object mm t p"
  shows "is_word_in_heap mm p \<and> is_mmtk_object mm t p"
  using assms by (auto simp: field_roots_def split: if_splits)

lemma roots_of_sound:
  "roots_of c mm m t depth obj = Ok ps \<Longrightarrow> is_word_in_heap mm obj \<Longrightarrow> is_mmtk_object mm t obj \<Longrightarrow>
   \<forall>p\<in>set ps. is_word_in_heap mm p \<and> is_mmtk_object mm t p"
proof (induction depth arbitrary: obj ps)
  case 0
  then show ?case by simp
next
  case (Suc depth)
  then obtain qs where qs: "lock_roots c mm m t (roots_of c mm m t depth) obj = Ok qs" "ps = qs @ [obj]"
    by auto
  have "\<forall>p\<in>set qs. is_word_in_heap mm p \<and> is_mmtk_object mm t p"
    using qs(1) field_roots_sound [OF _ _ Suc.IH]
    unfolding lock_roots_def by (auto split: if_splits)
  then show ?case using qs Suc.prems by auto
qed

lemma roots_of_last: "roots_of c mm m t depth obj = Ok ps \<Longrightarrow> obj \<in> set ps"
  by (cases depth) auto

lemma range_roots_sound:
  assumes "range_roots c mm m t depth lo hi = Ok ps" "p \<in> set ps"
  shows "is_word_in_heap mm p \<and> is_mmtk_object mm t p"
proof -
  obtain w qs where "word_roots c mm m t depth w = Ok qs" "p \<in> set qs"
    using assms collectR_set unfolding range_roots_def by (auto dest!: collectR_set)
  then show ?thesis
    using roots_of_sound by (fastforce simp: word_roots_def candidate_def split: if_splits)
qed

lemma collectR_elem:
  "collectR f xs = Ok ps \<Longrightarrow> x \<in> set xs \<Longrightarrow> \<exists>qs. f x = Ok qs \<and> set qs \<subseteq> set ps"
  by (induction xs arbitrary: ps) fastforce+

lemma range_roots_complete:
  assumes "range_roots c mm m t depth lo hi = Ok ps" "a \<in> set (words_between lo hi)"
    and "load64 m a = Ok w" "candidate c mm t w"
  shows "w \<in> set ps"
proof -
  obtain qs where "word_roots c mm m t depth w = Ok qs" "set qs \<subseteq> set ps"
    using collectR_elem [OF assms(1) [unfolded range_roots_def] assms(2)] assms(3) by auto
  then show ?thesis
    using assms(4) roots_of_last by (fastforce simp: word_roots_def)
qed

text \<open>
  C2. Conservative scanning is exact up to monitors: if the words of a thread's stack and
  registers can be read and the objects they name have sound headers, the scan succeeds;
  what it delivers are heap addresses of objects only; and the object named by an
  aligned word anywhere from the top of the stack to its bottom, or in a register, is
  delivered.
\<close>

theorem conservative_scan_exact:
  assumes "alignment_log c k" "\<not> object_pinning c" "ranges_ok c tls" "fresh_ok b"
    and "stack = get_stack_range c tls" "rs = get_regs_range c tls"
    and "scannable c mm (memory vm) (core_state vm) depth (stack_top stack) (stack_bottom stack)"
    and "scannable c mm (memory vm) (core_state vm) depth (regs rs) (regs rs + 8 * regs_size rs)"
  shows "\<exists>vm' b' ps. scan_roots_in_mutator_thread c mm create depth tls (vm, b) = Ok (vm', b') \<and>
    delivered create ps b b' \<and>
    (\<forall>p\<in>set ps. is_word_in_heap mm p \<and> is_mmtk_object mm (core_state vm) p) \<and>
    (\<forall>a\<in>set (words_between (stack_top stack) (stack_bottom stack) @
             words_between (regs rs) (regs rs + 8 * regs_size rs)).
       \<forall>w. load64 (memory vm) a = Ok w \<longrightarrow> candidate c mm (core_state vm) w \<longrightarrow> w \<in> set ps)"
proof -
  obtain ps1 where ps1: "range_roots c mm (memory vm) (core_state vm) depth (stack_top stack) (stack_bottom stack) = Ok ps1"
    using range_roots_total [OF assms(7)] by blast
  obtain ps2 where ps2: "range_roots c mm (memory vm) (core_state vm) depth (regs rs) (regs rs + 8 * regs_size rs) = Ok ps2"
    using range_roots_total [OF assms(8)] by blast
  have roots: "thread_roots c mm (memory vm) (core_state vm) depth tls = Ok (ps1 @ ps2)"
    using ps1 ps2 assms(5,6) by (simp add: thread_roots_def)
  have sound: "\<forall>p\<in>set (ps1 @ ps2). is_word_in_heap mm p \<and> is_mmtk_object mm (core_state vm) p"
    using range_roots_sound [OF ps1] range_roots_sound [OF ps2] by auto
  have complete: "w \<in> set (ps1 @ ps2)"
    if "a \<in> set (words_between (stack_top stack) (stack_bottom stack) @
             words_between (regs rs) (regs rs + 8 * regs_size rs))"
      "load64 (memory vm) a = Ok w" "candidate c mm (core_state vm) w" for a w
    using that range_roots_complete [OF ps1 _ that(2,3)] range_roots_complete [OF ps2 _ that(2,3)] by auto
  have "\<exists>b'. scan_roots_in_mutator_thread c mm create depth tls (vm, b)
      = Ok (push_weak_upd (weak_of c (memory vm) (ps1 @ ps2)) vm, b') \<and> delivered create (ps1 @ ps2) b b'"
    unfolding scan_roots_in_mutator_thread_def
    by (rule with_roots_closure_delivers [OF assms(4) reports_program_stack [OF assms(1-3) roots]])
  then show ?thesis using sound complete by blast
qed

lemma sample_loads:
  "load64 scan_mem 0x7000 = Ok 0x10000" "load64 scan_mem 0x7008 = Ok 0x10041"
  "load64 scan_mem 0x7100 = Ok 0x10040" "load64 scan_mem 0x7108 = Ok 3"
  by (simp_all add: scan_mem_def abi_defs)

lemma sample_candidate:
  "candidate sample_cfg sample_mmtk (sample_core [0x10000, 0x10040]) w \<longleftrightarrow> w = 0x10000 \<or> w = 0x10040"
  by (auto simp: candidate_def is_word_in_heap_def sample_mmtk_def sample_core_def)

theorem conservative_scan_exact_witness:
  "\<exists>vm' b' ps. scan_roots_in_mutator_thread sample_cfg sample_mmtk (\<lambda>p f. f @ [p]) (Suc 0) 0x5500 (scan_vm, no_bufs)
      = Ok (vm', b') \<and> delivered (\<lambda>p f. f @ [p]) ps no_bufs b' \<and>
    (\<forall>p\<in>set ps. is_word_in_heap sample_mmtk p \<and> is_mmtk_object sample_mmtk (core_state scan_vm) p) \<and>
    (\<forall>a\<in>set (words_between 0x7000 0x7008 @ words_between 0x7100 (0x7100 + 8 * 1)).
       \<forall>w. load64 (memory scan_vm) a = Ok w \<longrightarrow> candidate sample_cfg sample_mmtk (core_state scan_vm) w \<longrightarrow> w \<in> set ps)"
  using conservative_scan_exact [where k = 4 and c = sample_cfg and tls = "0x5500" and b = no_bufs and mm = sample_mmtk
      and vm = scan_vm and depth = "Suc 0" and create = "\<lambda>p f. f @ [p]"
      and stack = "\<lparr>stack_top = 0x7000, stack_bottom = 0x7008\<rparr>" and rs = "\<lparr>regs = 0x7100, regs_size = 1\<rparr>"]
  by (simp add: scannable_def sample_words sample_loads sample_candidate sample_roots del: roots_of.simps)

text \<open>
  C27. The scan reads one word beyond the saved registers: \<open>mmtk_mark_range\<close> includes its
  upper bound, and for the registers that bound is one past the end. If that word is not
  mapped, the scan of the thread faults.
\<close>

theorem scan_reads_past_registers:
  fixes create :: "u64 list \<Rightarrow> 'f \<Rightarrow> 'f"
  assumes "ranges_ok c tls" "rs = get_regs_range c tls"
    and "load64 (memory vm) (regs rs + 8 * regs_size rs) = Err Segv"
  shows "\<forall>r. scan_roots_in_mutator_thread c mm create depth tls (vm, b) \<noteq> Ok r"
proof (intro allI notI)
  fix r assume "scan_roots_in_mutator_thread c mm create depth tls (vm, b) = Ok r"
  then obtain s' and rcb :: "'f roots_closure \<times> 'f bufs" where
    "mmtk_mark_program_stack c mm depth tls (vm, rcb) = Ok s'"
    by (auto simp: scan_roots_in_mutator_thread_def with_roots_closure_def)
  from program_stack_reads_regs_end [OF this assms(1)] show False
    using assms(2,3) by simp
qed

theorem scan_reads_past_registers_witness:
  "\<forall>r. scan_roots_in_mutator_thread sample_cfg sample_mmtk (\<lambda>p f. f @ [p]) (Suc 0) 0x5500
      (init_vm (word_mem [(0x7000, 0), (0x7008, 0), (0x7100, 0)]) (sample_core []), no_bufs) \<noteq> Ok r"
  by (rule scan_reads_past_registers [where rs = "\<lparr>regs = 0x7100, regs_size = 1\<rparr>"]) (simp_all add: aligned8_def)

text \<open>
  C21. A scan of the virtual machine's roots that returns has not written a byte of the
  memory, and the runtime's thread list ends: a list that does not end is never
  left.
\<close>

theorem vm_scan_reads_only:
  fixes create :: "u64 list \<Rightarrow> 'f \<Rightarrow> 'f"
  assumes "scan_vm_specific_roots c mm create depth (vm, b) = Some (Ok (vm', b'))"
  shows "memory vm' = memory vm \<and> (\<exists>ts. thread_list (memory vm) (get_mutator_threads c) ts)"
proof -
  obtain vm1 b1 where
    threads: "scan_roots_in_all_mutator_threads c mm create depth (vm, b) = Some (Ok (vm1, b1))"
    and modules: "with_roots_closure create (mmtk_mark_modules c mm depth) (vm1, b1) = Ok (vm', b')"
    using assms by (auto simp: scan_vm_specific_roots_def split: option.splits)
  obtain rcb rcb1 :: "'f roots_closure \<times> 'f bufs" where walk: "mark_threads c mm depth (get_mutator_threads c) (vm, rcb) = Some (Ok (vm1, rcb1))"
    using threads by (auto simp: scan_roots_in_all_mutator_threads_def split: sum.splits option.splits)
  have "memory vm' = memory vm1"
    using modules by (auto simp: with_roots_closure_def dest!: keepsD [OF mark_modules_keeps])
  then show ?thesis
    using mark_threads_Ok [OF walk refl] by simp
qed

theorem vm_scan_reads_only_witness:
  "\<exists>vm' b'. scan_vm_specific_roots sample_cfg sample_mmtk (\<lambda>p f. f @ [p]) (Suc 0) (scan_vm, no_bufs) = Some (Ok (vm', b')) \<and>
    memory vm' = memory scan_vm \<and> (\<exists>ts. thread_list (memory scan_vm) (get_mutator_threads sample_cfg) ts)"
proof -
  obtain vm' b' where r: "scan_vm_specific_roots sample_cfg sample_mmtk (\<lambda>p f. f @ [p]) (Suc 0) (scan_vm, no_bufs)
      = Some (Ok (vm', b'))"
    using scan_vm_roots [where k = 4 and ts = "[0x5500]" and c = sample_cfg and mm = sample_mmtk and vm = scan_vm
        and b = no_bufs and depth = "Suc 0" and create = "\<lambda>p f. f @ [p]"
        and ps = "[0x10000, 0x10040]" and qs = "[0x10000]"]
    by (auto simp: sample_thread_roots sample_thread_list all_thread_roots_def simp del: thread_list.simps)
  then show ?thesis using vm_scan_reads_only [OF r] by blast
qed

text \<open>
  C20. Marking ends when monitors are well founded, and reports monitors first. There is one list \<open>f x\<close>
  for each object \<open>x\<close> of a set with sound headers whose monitors have a lower rank: the lists of the heap
  objects that the lock word of its type and its own refer to, in this order, then \<open>x\<close> itself;
  and marking \<open>x\<close> with any depth above its rank reports exactly this list.
\<close>

theorem marking_ends:
  fixes m :: mem and t :: 't
  assumes "markable c mm m t S rank"
  shows "\<exists>f. \<forall>x\<in>S.
    (\<forall>rl ol. header_ok c m x rl ol \<longrightarrow> f x = concat (map f (followed_monitors c mm t x rl ol)) @ [x]) \<and>
    (\<forall>depth vm (rcb :: 'f roots_closure \<times> 'f bufs). rank x < depth \<longrightarrow> memory vm = m \<longrightarrow> core_state vm = t \<longrightarrow>
      mmtk_mark_object c mm depth x (vm, rcb) = emit c (f x) (vm, rcb))"
proof (intro exI [of _ "\<lambda>x. projr (roots_of c mm m t (Suc (rank x)) x)"] ballI conjI allI impI)
  fix x rl ol assume "x \<in> S" "header_ok c m x rl ol"
  then show "projr (roots_of c mm m t (Suc (rank x)) x) =
      concat (map (\<lambda>x. projr (roots_of c mm m t (Suc (rank x)) x)) (followed_monitors c mm t x rl ol)) @ [x]"
    by (rule roots_of_followed [OF assms])
next
  fix x depth and vm :: "'t vm" and rcb :: "'f roots_closure \<times> 'f bufs"
  assume x: "x \<in> S" "rank x < depth" and vm: "memory vm = m" "core_state vm = t"
  have "roots_of c mm m t depth x = Ok (projr (roots_of c mm m t (Suc (rank x)) x))"
    by (rule roots_of_stable [OF assms x])
  from reportsD [OF reports_object [OF this] vm]
  show "mmtk_mark_object c mm depth x (vm, rcb) = emit c (projr (roots_of c mm m t (Suc (rank x)) x)) (vm, rcb)" .
qed

text \<open>The sample's objects have no monitors; a third one refers to the first by its lock word.\<close>

definition monitor_mem :: mem where
  "monitor_mem = word_mem (rtti_words 0x1000 5 24 0x2000 @ obj_words 0x10000 0x1000 0 [0] @
     obj_words 0x10020 0x1000 (0x10000 OR 1) [0])"

lemma monitor_headers:
  "header_ok sample_cfg monitor_mem 0x10000 0 0" "header_ok sample_cfg monitor_mem 0x10020 0 0x10001"
  by (auto simp: header_ok_def monitor_mem_def abi_defs)

theorem marking_ends_witness:
  "\<forall>rcb0 :: u64 list list roots_closure \<times> u64 list list bufs. mmtk_mark_object sample_cfg sample_mmtk 2 0x10020
      (init_vm monitor_mem (sample_core [0x10000, 0x10020]), rcb0) =
      emit sample_cfg [0x10000, 0x10020] (init_vm monitor_mem (sample_core [0x10000, 0x10020]), rcb0)"
proof
  fix rcb0 :: "u64 list list roots_closure \<times> u64 list list bufs"
  let ?rank = "\<lambda>a. if a = 0x10020 then 1 else (0 :: nat)" and ?t = "sample_core [0x10000, 0x10020]"
  have "markable sample_cfg sample_mmtk monitor_mem ?t {0x10000, 0x10020} ?rank"
    unfolding markable_def using monitor_headers by (fastforce simp: monitors_def lock_defs)
  from marking_ends [OF this] obtain f where
    f: "\<And>x rl ol. x \<in> {0x10000, 0x10020} \<Longrightarrow> header_ok sample_cfg monitor_mem x rl ol \<Longrightarrow>
      f x = concat (map f (followed_monitors sample_cfg sample_mmtk ?t x rl ol)) @ [x]"
    and mark: "\<And>x depth vm (rcb :: u64 list list roots_closure \<times> u64 list list bufs). x \<in> {0x10000, 0x10020} \<Longrightarrow> ?rank x < depth \<Longrightarrow> memory vm = monitor_mem \<Longrightarrow> core_state vm = ?t \<Longrightarrow>
      mmtk_mark_object sample_cfg sample_mmtk depth x (vm, rcb) = emit sample_cfg (f x) (vm, rcb)"
    by blast
  have "f 0x10000 = [0x10000]"
    using f [OF _ monitor_headers(1)] by (simp add: followed_monitors_def monitors_def lock_defs)
  then have "f 0x10020 = [0x10000, 0x10020]"
    using f [OF _ monitor_headers(2)]
    by (simp add: followed_monitors_def monitors_def lock_defs sample_mmtk_def sample_core_def is_word_in_heap_def)
  with mark [of "0x10020" 2 "init_vm monitor_mem ?t" rcb0]
  show "mmtk_mark_object sample_cfg sample_mmtk 2 0x10020 (init_vm monitor_mem ?t, rcb0) =
      emit sample_cfg [0x10000, 0x10020] (init_vm monitor_mem ?t, rcb0)"
    by simp
qed

text \<open>
  C30. The recursion of marking has no visited check: an object that is (through its own
  lock word) its own monitor is marked forever, until the stack overflows.
\<close>

theorem monitor_cycle_overflows:
  assumes "uses_lockword c" "obj \<noteq> 0"
    and "header_ok c (memory (fst s)) obj rl ol" "\<not> field_is_inflated_lock rl"
    and "field_is_inflated_lock ol" "field_alligned_lock_ref ol = obj"
    and "is_word_in_heap mm obj" "is_object mm (fst s) obj"
  shows "mmtk_mark_object c mm depth obj s = Err Stack_overflow"
proof (induction depth)
  case 0
  then show ?case by simp
next
  case (Suc depth)
  have "mark_lock_words_with c mm (mmtk_mark_object c mm depth) obj s = Err Stack_overflow"
    using assms Suc by (auto simp: mark_lock_words_with_def header_ok_def mark_field_with_def)
  then show ?case
    using assms(3) by (auto simp: header_ok_def debug_assert_def)
qed

theorem monitor_cycle_overflows_witness:
  "\<forall>rcb0. mmtk_mark_object sample_cfg sample_mmtk 100 0x10000
     (init_vm (word_mem (rtti_words 0x1000 5 24 0x2000 @ obj_words 0x10000 0x1000 (0x10000 OR 1) [0]))
       (sample_core [0x10000]), rcb0) = Err Stack_overflow"
proof (intro allI, rule monitor_cycle_overflows [where rl = 0 and ol = "0x10001"])
  show "header_ok sample_cfg (memory (fst (init_vm (word_mem (rtti_words 0x1000 5 24 0x2000 @
      obj_words 0x10000 0x1000 (0x10000 OR 1) [0])) (sample_core [0x10000]), rcb0))) 0x10000 0 0x10001" for rcb0
    by (auto simp: header_ok_def abi_defs)
qed (simp_all add: lock_defs is_word_in_heap_def sample_mmtk_def is_object_def sample_core_def)

end
