(* ===== verification/Weak_Refs.thy ===== *)
theory Weak_Refs
  imports Root_Scans
begin

text \<open>
  Weak references and pinning: \<open>mmtk_weak_ref_stack_nullify\<close>, \<open>mmtk_weak_ref_stack_call_handlers\<close>
  and the remaining functions of the \<open>Scanning\<close> trait (\<open>src/mmtk/src/scanning.rs\<close>),
  \<open>mmtk_pin_object\<close>, \<open>mmtk_append_pinned_objects\<close> and the handler's setter (\<open>api.rs\<close>),
  \<open>unpin_pinned_objects\<close> (\<open>binding.rs\<close>).
\<close>

section \<open>Pinned objects\<close>

definition mmtk_pin_object :: "'t mmtk \<Rightarrow> u64 \<Rightarrow> 't vm \<Rightarrow> bool \<times> 't vm" where
  "mmtk_pin_object mm addr vm =
     (case pin_object mm addr (core_state vm) of (r, t) \<Rightarrow> (r, vm\<lparr>core_state := t\<rparr>))"

text \<open>The words at \<open>data[0..len]\<close> are appended.\<close>

definition mmtk_append_pinned_objects :: "u64 \<Rightarrow> nat \<Rightarrow> 't vm \<Rightarrow> 't vm res" where
  "mmtk_append_pinned_objects data len vm =
     bindR (foldR (\<lambda>i ws. bindR (load64 (memory vm) (data + 8 * of_nat i)) (\<lambda>w. Ok (ws @ [w]))) [0..<len] [])
       (\<lambda>ws. append_to_binding ws vm)"

definition unpin_one :: "'a upcalls_scheme \<Rightarrow> 't mmtk \<Rightarrow> u64 \<Rightarrow> 't vm \<Rightarrow> 't vm res" where
  "unpin_one c mm obj vm =
     (case unpin_object mm obj (core_state vm) of (result, t) \<Rightarrow>
      bindR (debug_assert c (Ok result)) (\<lambda>_. Ok (vm\<lparr>core_state := t\<rparr>)))"

definition unpin_pinned_objects :: "'a upcalls_scheme \<Rightarrow> 't mmtk \<Rightarrow> 't vm \<Rightarrow> 't vm res" where
  "unpin_pinned_objects c mm vm =
     foldR (unpin_one c mm) (pinned_objects vm) (vm\<lparr>pinned_objects := []\<rparr>)"


section \<open>The stack of weak references\<close>

definition nullify_one :: "'a upcalls_scheme \<Rightarrow> 't mmtk \<Rightarrow> u64 \<Rightarrow> 't vm \<Rightarrow> 't vm res" where
  "nullify_one c mm obj vm =
     (case trace mm obj vm of (traced, vm) \<Rightarrow>
      bindR (get_fields c traced) (\<lambda>fields_addr.
      bindR (ptr_offset fields_addr (sint (get_weak_ref_field_offset c))) (\<lambda>edge.
      bindR (load64 (memory vm) edge) (\<lambda>ref_object.
      case trace mm ref_object vm of (traced_ref, vm) \<Rightarrow>
      if is_word_in_heap mm ref_object
      then (if \<not> is_reachable mm (core_state vm) traced_ref
            then bindR (store_vm edge 0 vm) (\<lambda>vm. Ok (vm\<lparr>visited := True\<rparr>))
            else Ok vm)
      else Ok vm))))"

lemma nullify_one_stack:
  "nullify_one c mm obj vm = Ok vm' \<Longrightarrow> weak_ref_stack vm' = weak_ref_stack vm"
  by (auto simp: nullify_one_def trace_def store_vm_def split: prod.splits if_splits)

function nullify_loop :: "'a upcalls_scheme \<Rightarrow> 't mmtk \<Rightarrow> 't vm \<Rightarrow> 't vm res" where
  "nullify_loop c mm vm =
     (if weak_ref_stack_is_empty vm then Ok vm
      else (case weak_ref_stack_pop vm of (weak_ref, vm) \<Rightarrow>
            bindR (of_option Unwrap_failed weak_ref) (\<lambda>obj.
            bindR (nullify_one c mm obj vm) (\<lambda>vm. nullify_loop c mm vm))))"
  by pat_completeness auto
termination
  by (relation "measure (\<lambda>(c, mm, vm). length (weak_ref_stack vm))")
     (auto simp: weak_ref_stack_is_empty_def weak_ref_stack_pop_def dest!: nullify_one_stack split: if_splits)

declare nullify_loop.simps [simp del]

definition mmtk_weak_ref_stack_nullify :: "'a upcalls_scheme \<Rightarrow> 't mmtk \<Rightarrow> 't vm \<Rightarrow> 't vm res" where
  "mmtk_weak_ref_stack_nullify c mm vm = nullify_loop c mm (vm\<lparr>visited := False\<rparr>)"

definition mmtk_weak_ref_stack_set_handler :: "u64 \<Rightarrow> 't vm \<Rightarrow> 't vm" where
  "mmtk_weak_ref_stack_set_handler handler vm = vm\<lparr>handler_fn := Some handler\<rparr>"

text \<open>\<open>call\<close> runs the handler, which is the runtime's.\<close>

definition mmtk_weak_ref_stack_call_handlers ::
    "(u64 \<Rightarrow> 't vm \<Rightarrow> 't vm) \<Rightarrow> 't vm \<Rightarrow> 't vm" where
  "mmtk_weak_ref_stack_call_handlers call vm =
     (case handler_fn vm of None \<Rightarrow> vm | Some h \<Rightarrow> call h vm)"


section \<open>The rest of the scanning interface\<close>

definition support_edge_enqueuing :: "u64 \<Rightarrow> u64 \<Rightarrow> bool" where
  "support_edge_enqueuing tls obj = False"

definition notify_initial_thread_scan_complete :: "bool \<Rightarrow> u64 \<Rightarrow> 't vm \<Rightarrow> 't vm" where
  "notify_initial_thread_scan_complete partial_scan tls vm = vm"

definition supports_return_barrier :: "bool res" where
  "supports_return_barrier = Err Unimplemented"

definition prepare_for_roots_re_scanning :: "'t vm \<Rightarrow> 't vm" where
  "prepare_for_roots_re_scanning vm = vm\<lparr>upcall_trace := upcall_trace vm @ [Prepare_for_roots_re_scanning]\<rparr>"

text \<open>The calls that would nullify weak references and run the handlers are commented out.\<close>

definition process_weak_refs :: "'a upcalls_scheme \<Rightarrow> 't mmtk \<Rightarrow> 't vm \<Rightarrow> (bool \<times> 't vm) res" where
  "process_weak_refs c mm vm =
     bindR (if object_pinning c
            then bindR (guardR Panicked (binding_set vm)) (\<lambda>_. unpin_pinned_objects c mm vm) else Ok vm) (\<lambda>vm. Ok (False, vm))"

definition forward_weak_refs :: "'t vm \<Rightarrow> 't vm res" where
  "forward_weak_refs vm = Err Panicked"


section \<open>Emptying the stack\<close>

text \<open>The loop handles every weak reference once, the last pushed first.\<close>

lemma nullify_one_commute:
  "nullify_one c mm obj (vm\<lparr>weak_ref_stack := ws\<rparr>) =
   bindR (nullify_one c mm obj vm) (\<lambda>vm'. Ok (vm'\<lparr>weak_ref_stack := ws\<rparr>))"
proof -
  obtain a m t where tr: "trace_object mm obj (memory vm, core_state vm) = (a, m, t)"
    by (metis prod_cases3)
  show ?thesis
  proof (cases "bindR (get_fields c a) (\<lambda>fa. bindR (ptr_offset fa (sint (get_weak_ref_field_offset c))) (\<lambda>edge.
      bindR (load64 m edge) (\<lambda>w. Ok (edge, w))))")
    case (Inl e)
    then show ?thesis
      by (auto simp: nullify_one_def trace_def tr bindR_eq_Err)
  next
    case (Inr r)
    obtain edge w where r: "r = (edge, w)" by (cases r)
    obtain a2 m2 t2 where "trace_object mm w (m, t) = (a2, m2, t2)" by (metis prod_cases3)
    moreover obtain fa where "get_fields c a = Ok fa" "ptr_offset fa (sint (get_weak_ref_field_offset c)) = Ok edge"
      "load64 m edge = Ok w"
      using Inr r by auto
    ultimately show ?thesis
      by (cases "store64 m2 edge 0") (simp_all add: nullify_one_def trace_def tr store_vm_def)
  qed
qed

lemma nullify_loop_foldR:
  "nullify_loop c mm vm = foldR (nullify_one c mm) (rev (weak_ref_stack vm)) (vm\<lparr>weak_ref_stack := []\<rparr>)"
proof (induction "weak_ref_stack vm" arbitrary: vm rule: rev_induct)
  case Nil
  then have "vm\<lparr>weak_ref_stack := []\<rparr> = vm" by simp
  then show ?case
    using Nil by (subst nullify_loop.simps) (simp add: weak_ref_stack_is_empty_def)
next
  case (snoc obj xs)
  have "nullify_loop c mm vm = bindR (nullify_one c mm obj (vm\<lparr>weak_ref_stack := xs\<rparr>)) (nullify_loop c mm)"
    using snoc(2) [symmetric]
    by (subst nullify_loop.simps) (simp add: weak_ref_stack_is_empty_def weak_ref_stack_pop_def)
  also have "\<dots> = bindR (nullify_one c mm obj (vm\<lparr>weak_ref_stack := []\<rparr>)) (foldR (nullify_one c mm) (rev xs))"
    using snoc(1) by (cases "nullify_one c mm obj vm") (simp_all add: nullify_one_commute)
  finally show ?case
    by (simp flip: snoc(2))
qed

lemma nullify_fold_stack:
  "foldR (nullify_one c mm) xs vm = Ok vm' \<Longrightarrow> weak_ref_stack vm' = weak_ref_stack vm"
  by (induction xs arbitrary: vm) (auto dest: nullify_one_stack)

text \<open>
  Nullifying ends with an empty stack, after handling every weak reference on it
  exactly once, the last pushed first; \<open>VISITED\<close> tells whether a referent was cleared by
  this run.
\<close>

lemma nullify_empties_stack:
  "mmtk_weak_ref_stack_nullify c mm vm =
     foldR (nullify_one c mm) (rev (weak_ref_stack vm)) (vm\<lparr>visited := False, weak_ref_stack := []\<rparr>) \<and>
   (case mmtk_weak_ref_stack_nullify c mm vm of Inl e \<Rightarrow> True | Inr vm' \<Rightarrow> weak_ref_stack vm' = [])"
  by (auto simp: mmtk_weak_ref_stack_nullify_def nullify_loop_foldR dest: nullify_fold_stack split: sum.splits)

text \<open>
  A weak reference whose referent is not reachable after tracing has its slot cleared
  and sets \<open>VISITED\<close>; if the referent is reachable the slot is left as it was, so that it
  still holds the old address of a referent that tracing moved.
\<close>

lemma nullify_one_cases:
  assumes "trace_object mm obj (memory vm, core_state vm) = (obj', m1, t1)"
    and "get_fields c obj' = Ok fa" "ptr_offset fa (sint (get_weak_ref_field_offset c)) = Ok edge"
    and "load64 m1 edge = Ok w" "trace_object mm w (m1, t1) = (w', m2, t2)" "load64 m2 edge = Ok w"
    and "is_word_in_heap mm w"
  shows "\<exists>vm'. nullify_one c mm obj vm = Ok vm' \<and> core_state vm' = t2 \<and>
    load64 (memory vm') edge = Ok (if is_reachable mm t2 w' then w else 0) \<and>
    visited vm' = (visited vm \<or> \<not> is_reachable mm t2 w')"
proof -
  obtain m3 where m3: "store64 m2 edge 0 = Ok m3" using load64_total_store [OF assms(6)] by blast
  show ?thesis
    using assms m3 load64_store64_same [OF m3]
    by (cases "is_reachable mm t2 w'") (simp_all add: nullify_one_def trace_def store_vm_def)
qed

text \<open>The referent is moved from \<open>0x10000\<close> to \<open>0x100C0\<close>: reachable, and the slot keeps the old address.\<close>

definition weak_mem :: mem where
  "weak_mem = word_mem (rtti_words 0x1100 30 32 0x2000 @ obj_words 0x10040 0x1100 0 [0x10000])"

definition weak_vm :: "core vm" where
  "weak_vm = (init_vm weak_mem ((sample_core [0x10040, 0x100C0])\<lparr>forwarded := [(0x10000, 0x100C0)]\<rparr>))
     \<lparr>weak_ref_stack := [0x10040]\<rparr>"

lemma weak_vm_simps [simp]:
  "memory weak_vm = weak_mem" "core_state weak_vm = (sample_core [0x10040, 0x100C0])\<lparr>forwarded := [(0x10000, 0x100C0)]\<rparr>"
  "weak_ref_stack weak_vm = [0x10040]" "\<not> visited weak_vm"
  by (simp_all add: weak_vm_def init_vm_def)

lemma weak_load: "load64 weak_mem 0x10050 = Ok 0x10000"
  by (simp add: weak_mem_def abi_defs)

lemma nullify_moved_referent:
  "\<exists>vm'. nullify_one sample_cfg sample_mmtk 0x10040 weak_vm = Ok vm' \<and>
    load64 (memory vm') 0x10050 = Ok 0x10000 \<and> \<not> visited vm'"
proof -
  let ?t = "(sample_core [0x10040, 0x100C0])\<lparr>forwarded := [(0x10000, 0x100C0)], traced_log := [0x10040]\<rparr>"
  let ?t2 = "?t\<lparr>traced_log := [0x10040, 0x10000]\<rparr>"
  have "\<exists>vm'. nullify_one sample_cfg sample_mmtk 0x10040 weak_vm = Ok vm' \<and> core_state vm' = ?t2 \<and>
    load64 (memory vm') 0x10050 = Ok (if is_reachable sample_mmtk ?t2 0x100C0 then 0x10000 else 0) \<and>
    visited vm' = (visited weak_vm \<or> \<not> is_reachable sample_mmtk ?t2 0x100C0)"
    by (rule nullify_one_cases [where ?m1.0 = weak_mem and ?m2.0 = weak_mem and ?t1.0 = ?t and obj' = "0x10040"
          and fa = "0x10050"])
       (simp_all add: weak_load sample_mmtk_def sample_core_def get_fields_def ptr_offset_def is_word_in_heap_def)
  then show ?thesis by (auto simp: sample_mmtk_def sample_core_def)
qed

definition tracer_marks :: "'t mmtk \<Rightarrow> bool" where
  "tracer_marks mm \<longleftrightarrow> (\<forall>a m t a' m' t'. is_word_in_heap mm a \<longrightarrow>
     trace_object mm a (m, t) = (a', m', t') \<longrightarrow> is_reachable mm t' a')"

text \<open>Tracing may write other memory (it copies objects), so the slots are only claimed not to be cleared by the loop.\<close>

definition tracer_keeps :: "'t mmtk \<Rightarrow> bool" where
  "tracer_keeps mm \<longleftrightarrow> (\<forall>a m t a' m' t'. trace_object mm a (m, t) = (a', m', t') \<longrightarrow> m' = m)"

lemma nullify_one_marks:
  assumes "tracer_marks mm" "nullify_one c mm obj vm = Ok vm'"
  shows "visited vm' = visited vm" "tracer_keeps mm \<Longrightarrow> memory vm' = memory vm"
proof -
  obtain a m t where tr: "trace_object mm obj (memory vm, core_state vm) = (a, m, t)" by (metis prod_cases3)
  then obtain w a2 m2 t2 where "trace_object mm w (m, t) = (a2, m2, t2)"
    and run: "is_word_in_heap mm w \<longrightarrow> is_reachable mm t2 a2 \<longrightarrow> vm' = vm\<lparr>memory := m2, core_state := t2\<rparr>"
      "\<not> is_word_in_heap mm w \<longrightarrow> vm' = vm\<lparr>memory := m2, core_state := t2\<rparr>"
    using assms(2) by (fastforce simp: nullify_one_def trace_def split: if_splits prod.splits)
  then have "vm' = vm\<lparr>memory := m2, core_state := t2\<rparr>" "tracer_keeps mm \<Longrightarrow> m2 = memory vm"
    using assms(1) tr by (auto simp: tracer_marks_def tracer_keeps_def) blast+
  then show "visited vm' = visited vm" "tracer_keeps mm \<Longrightarrow> memory vm' = memory vm" by simp_all
qed

lemma nullify_fold_marks:
  assumes "tracer_marks mm"
  shows "foldR (nullify_one c mm) xs vm = Ok vm' \<Longrightarrow>
    visited vm' = visited vm \<and> (tracer_keeps mm \<longrightarrow> memory vm' = memory vm)"
  by (induction xs arbitrary: vm) (use nullify_one_marks [OF assms] in fastforce)+

text \<open>
  C24. As mmtk-core's tracer marks what it traces, and the referent is traced before it is
  tested, no referent is ever found dead: no slot is cleared and \<open>VISITED\<close> stays false.
\<close>

theorem nullify_clears_nothing:
  assumes "tracer_marks mm" "mmtk_weak_ref_stack_nullify c mm vm = Ok vm'"
  shows "\<not> visited vm' \<and> (tracer_keeps mm \<longrightarrow> memory vm' = memory vm)"
  using nullify_fold_marks [OF assms(1), of c "rev (weak_ref_stack vm)" "vm\<lparr>visited := False, weak_ref_stack := []\<rparr>"] assms(2)
  by (simp add: mmtk_weak_ref_stack_nullify_def nullify_loop_foldR)

definition marking_mmtk :: "core mmtk" where
  "marking_mmtk = sample_mmtk\<lparr>trace_object := (\<lambda>a (m, t). (a, m, t\<lparr>objects := a # objects t\<rparr>))\<rparr>"

theorem nullify_clears_nothing_witness:
  "\<exists>vm'. mmtk_weak_ref_stack_nullify sample_cfg marking_mmtk weak_vm = Ok vm' \<and>
    \<not> visited vm' \<and> (tracer_keeps marking_mmtk \<longrightarrow> memory vm' = weak_mem)"
proof -
  have "\<exists>vm'. mmtk_weak_ref_stack_nullify sample_cfg marking_mmtk weak_vm = Ok vm'"
    by (simp add: mmtk_weak_ref_stack_nullify_def nullify_loop_foldR nullify_one_def trace_def marking_mmtk_def
        get_fields_def ptr_offset_def weak_load) (simp add: sample_mmtk_def is_word_in_heap_def)
  moreover have "tracer_marks marking_mmtk"
    by (simp add: tracer_marks_def marking_mmtk_def sample_mmtk_def)
  ultimately show ?thesis
    using nullify_clears_nothing [of marking_mmtk sample_cfg weak_vm] by auto
qed

end
