(* ===== verification/Pinning.thy ===== *)
theory Pinning
  imports Weak_Refs
begin

text \<open>
  Pinning over a collection. With \<open>object_pinning\<close>, root scanning pins the words it
  treats as pointers and keeps those it newly pinned in the binding's \<open>pinned_objects\<close>;
  \<open>process_weak_refs\<close> unpins them. The invariant says which objects are pinned at every
  moment; its consequence is that a collection leaves the pinned objects as they were.
\<close>

text \<open>
  mmtk-core's documented contract: \<open>pin_object\<close> and \<open>unpin_object\<close> return whether they
  changed the object's state. \<open>pinned t\<close> is the set of pinned objects.
\<close>

definition pin_ok :: "'t mmtk \<Rightarrow> ('t \<Rightarrow> u64 set) \<Rightarrow> bool" where
  "pin_ok mm pinned \<longleftrightarrow>
     (\<forall>a t r t'. pin_object mm a t = (r, t') \<longrightarrow> r = (a \<notin> pinned t) \<and> pinned t' = insert a (pinned t)) \<and>
     (\<forall>a t r t'. unpin_object mm a t = (r, t') \<longrightarrow> r = (a \<in> pinned t) \<and> pinned t' = pinned t - {a})"

text \<open>\<open>P\<close>: the objects pinned before; \<open>pins\<close>: those newly pinned by the function that is running.\<close>

definition pin_inv :: "('t \<Rightarrow> u64 set) \<Rightarrow> u64 set \<Rightarrow> u64 list \<times> 't vm \<times> 'r \<Rightarrow> bool" where
  "pin_inv pinned P = (\<lambda>(pins, vm, r).
     distinct (pinned_objects vm @ pins) \<and> P \<inter> set (pinned_objects vm @ pins) = {} \<and>
     pinned (core_state vm) = P \<union> set (pinned_objects vm @ pins))"

lemma pin_inv_frame:
  "frame s' = frame s \<Longrightarrow> pin_inv pinned P (pins, s') = pin_inv pinned P (pins, s)"
  by (cases s; cases s') (simp add: frame_def pin_inv_def)

lemma pin_word_inv:
  assumes "pin_ok mm pinned" "object_pinning c" "pin_inv pinned P st"
  shows "pin_inv pinned P (pin_word c mm w st)"
proof -
  obtain pins vm r where st: "st = (pins, vm, r)" by (metis prod_cases3)
  obtain b t where bt: "pin_object mm w (core_state vm) = (b, t)" by fastforce
  then have "b = (w \<notin> pinned (core_state vm))" "pinned t = insert w (pinned (core_state vm))"
    using assms(1) by (auto simp: pin_ok_def)
  then show ?thesis
    using assms(2,3) bt by (auto simp: st pin_word_def pin_inv_def)
qed

lemma mark_range_word_inv:
  assumes "pin_ok mm pinned" "object_pinning c" "pin_inv pinned P st" "mark_range_word c mm depth w st = Ok st'"
  shows "pin_inv pinned P st'"
proof (cases "st' = st")
  case True
  then show ?thesis using assms(3) by simp
next
  case False
  obtain pins s where pw: "pin_word c mm w st = (pins, s)" using prod.exhaust by blast
  with False assms(4) obtain s' where "mmtk_mark_conservative c mm depth w s = Ok s'" "st' = (pins, s')"
    by (auto simp: mark_range_word_def split: if_splits)
  then show ?thesis
    using pin_word_inv [OF assms(1-3), of w] pw pin_inv_frame [OF keepsD [OF mark_conservative_keeps]] by metis
qed

lemma mark_range_loop_inv:
  assumes "pin_ok mm pinned" "object_pinning c"
  shows "pin_inv pinned P st \<Longrightarrow> mark_range_loop c mm depth a hi st = Ok st' \<Longrightarrow> pin_inv pinned P st'"
proof (induction "nat (2 ^ 64 - uint a)" arbitrary: a st rule: less_induct)
  case less
  show ?case
  proof (cases "a \<le> hi")
    case True
    with less.prems(2) obtain w st1 "next" where step: "mark_range_word c mm depth w st = Ok st1"
      "ptr_offset a 1 = Ok next" "mark_range_loop c mm depth next hi st1 = Ok st'"
      by (subst (asm) mark_range_loop.simps) (simp del: split_paired_Ex, elim bindR_OkE, blast)
    have "nat (2 ^ 64 - uint next) < nat (2 ^ 64 - uint a)"
      using step(2) by (auto simp: ptr_offset_def uint_word_ariths split: if_splits)
    then show ?thesis
      by (rule less.hyps [OF _ mark_range_word_inv [OF assms less.prems(1) step(1)] step(3)])
  next
    case False
    then show ?thesis using less.prems by (simp add: mark_range_loop.simps)
  qed
qed

lemma append_pins_inv:
  assumes "object_pinning c" "pin_inv pinned P st" "append_pins c st = Ok s"
  shows "pin_inv pinned P ([], s)"
  using assms by (auto simp: append_pins_def append_to_binding_def pin_inv_def split: prod.splits)

lemma mark_range_inv:
  assumes "pin_ok mm pinned" "object_pinning c" "pin_inv pinned P ([], s)" "mmtk_mark_range c mm depth lo hi s = Ok s'"
  shows "pin_inv pinned P ([], s')"
proof -
  obtain st where "mark_range_loop c mm depth lo hi ([], s) = Ok st" "append_pins c st = Ok s'"
    using assms(4) unfolding mmtk_mark_range_def by blast
  then show ?thesis
    using append_pins_inv [OF assms(2) mark_range_loop_inv [OF assms(1-3)]] by metis
qed

lemma mark_program_stack_inv:
  assumes "pin_ok mm pinned" "object_pinning c" "pin_inv pinned P ([], s)" "mmtk_mark_program_stack c mm depth tls s = Ok s'"
  shows "pin_inv pinned P ([], s')"
  using assms(4) mark_range_inv [OF assms(1,2)] assms(3)
  unfolding mmtk_mark_program_stack_def Let_def by (elim bindR_OkE) blast

lemma mark_modules_inv:
  assumes "pin_ok mm pinned" "object_pinning c" "pin_inv pinned P ([], s)" "mmtk_mark_modules c mm depth s = Ok s'"
  shows "pin_inv pinned P ([], s')"
proof -
  have field: "keeps frame (mmtk_mark_field c mm depth w)" for w
    unfolding mmtk_mark_field_def by (rule mark_field_keeps [OF mark_object_keeps])
  obtain st where st: "foldR (mark_module c mm depth) [0..sint (get_modules_size c) - 1] ([], s) = Ok st"
    "append_pins c st = Ok s'"
    using assms(4) unfolding mmtk_mark_modules_def by blast
  have "pin_inv pinned P st"
  proof (rule foldR_invariant [OF st(1), where P = "pin_inv pinned P"])
    fix i t t' assume t: "pin_inv pinned P t" "mark_module c mm depth i t = Ok t'"
    then obtain w s1 where "mmtk_mark_field c mm depth w (snd (pin_word c mm w t)) = Ok s1"
      "Ok (fst (pin_word c mm w t), s1) = Ok t'"
      unfolding mark_module_def case_prod_beta by (elim bindR_OkE) (rule that)
    then have "mmtk_mark_field c mm depth w (snd (pin_word c mm w t)) = Ok s1"
      "t' = (fst (pin_word c mm w t), s1)"
      by simp_all
    then show "pin_inv pinned P t'"
      using pin_word_inv [OF assms(1,2) t(1), of w] pin_inv_frame [OF keepsD [OF field]] by (metis prod.collapse)
  qed (rule assms(3))
  then show ?thesis using append_pins_inv [OF assms(2) _ st(2)] by blast
qed


section \<open>A whole collection\<close>

lemma with_roots_closure_inv:
  assumes "with_roots_closure create f (vm, b) = Ok (vm', b')" "pin_inv pinned P ([], vm, ())"
    and "\<And>s s'. pin_inv pinned P ([], s) \<Longrightarrow> f s = Ok s' \<Longrightarrow> pin_inv pinned P ([], s')"
  shows "pin_inv pinned P ([], vm', ())"
proof -
  obtain rcb rcb' where "f (vm, rcb) = Ok (vm', rcb')"
    using assms(1) by (auto simp: with_roots_closure_def)
  then show ?thesis
    using assms(2) assms(3) [of "(vm, rcb)" "(vm', rcb')"] by (simp add: pin_inv_def)
qed

lemma scan_inv:
  fixes create :: "u64 list \<Rightarrow> 'f \<Rightarrow> 'f"
  assumes "pin_ok mm pinned" "object_pinning c" "scan_vm_specific_roots c mm create depth (vm, b) = Some (Ok (vm', b'))"
    and "pin_inv pinned P ([], vm, ())"
  shows "pin_inv pinned P ([], vm', ())"
proof -
  obtain vm1 b1 where
    threads: "scan_roots_in_all_mutator_threads c mm create depth (vm, b) = Some (Ok (vm1, b1))"
    and modules: "with_roots_closure create (mmtk_mark_modules c mm depth) (vm1, b1) = Ok (vm', b')"
    using assms(3) by (auto simp: scan_vm_specific_roots_def split: option.splits)
  obtain rcb rcb1 :: "'f roots_closure \<times> 'f bufs" where
    walk: "mark_threads c mm depth (get_mutator_threads c) (vm, rcb) = Some (Ok (vm1, rcb1))"
    using threads by (auto simp: scan_roots_in_all_mutator_threads_def split: sum.splits option.splits)
  have "pin_inv pinned P ([], vm, rcb)" using assms(4) by (simp add: pin_inv_def)
  then have "pin_inv pinned P ([], vm1, rcb1)"
    by (rule mark_threads_invariant [OF walk refl, where P = "\<lambda>s. pin_inv pinned P ([], s)"])
       (rule mark_program_stack_inv [OF assms(1,2)])
  then have "pin_inv pinned P ([], vm1, ())" by (simp add: pin_inv_def)
  then show ?thesis
    by (rule with_roots_closure_inv [OF modules]) (rule mark_modules_inv [OF assms(1,2)])
qed

lemma unpin_all:
  assumes "pin_ok mm pinned"
  shows "distinct xs \<Longrightarrow> P \<inter> set xs = {} \<Longrightarrow> pinned (core_state vm) = P \<union> set xs \<Longrightarrow>
    \<exists>t. foldR (unpin_one c mm) xs vm = Ok (vm\<lparr>core_state := t\<rparr>) \<and> pinned t = P"
proof (induction xs arbitrary: vm)
  case Nil
  then show ?case by (auto intro!: exI [of _ "core_state vm"])
next
  case (Cons a xs)
  obtain r t where rt: "unpin_object mm a (core_state vm) = (r, t)" by fastforce
  then have "r = (a \<in> pinned (core_state vm))" "pinned t = pinned (core_state vm) - {a}"
    using assms unfolding pin_ok_def by blast+
  then have r: "r" "pinned t = P \<union> set xs"
    using Cons.prems by auto
  then obtain t2 where "foldR (unpin_one c mm) xs (vm\<lparr>core_state := t\<rparr>) = Ok (vm\<lparr>core_state := t2\<rparr>)" "pinned t2 = P"
    using Cons.IH [of "vm\<lparr>core_state := t\<rparr>"] Cons.prems by auto
  moreover have "unpin_one c mm a vm = Ok (vm\<lparr>core_state := t\<rparr>)"
    using rt r(1) by (simp add: unpin_one_def)
  ultimately show ?case by (intro exI [of _ t2]) simp
qed

text \<open>The scan itself asks for the binding, so that it is set when the scan has ended.\<close>

lemma scan_needs_binding:
  fixes create :: "u64 list \<Rightarrow> 'f \<Rightarrow> 'f"
  assumes "object_pinning c" "scan_vm_specific_roots c mm create depth s = Some (Ok (vm', b'))"
  shows "binding_set vm'"
proof -
  obtain vm b where modules: "with_roots_closure create (mmtk_mark_modules c mm depth) (vm, b) = Ok (vm', b')"
    using assms(2) by (auto simp: scan_vm_specific_roots_def split: option.splits)
  then obtain rcb rcb' :: "'f roots_closure \<times> 'f bufs" where "mmtk_mark_modules c mm depth (vm, rcb) = Ok (vm', rcb')"
    by (auto simp: with_roots_closure_def)
  then show ?thesis
    using assms(1) by (auto simp: mmtk_mark_modules_def append_pins_def append_to_binding_def split: prod.splits)
qed

lemma weak_refs_unpin:
  assumes "pin_ok mm pinned" "object_pinning c" "pinned_objects vm = []"
    and "scan_vm_specific_roots c mm create depth (vm, b) = Some (Ok (vm1, b1))"
  shows "pinned (core_state vm1) = pinned (core_state vm) \<union> set (pinned_objects vm1) \<and>
    (\<exists>t. process_weak_refs c mm vm1 = Ok (False, vm1\<lparr>pinned_objects := [], core_state := t\<rparr>) \<and>
      pinned t = pinned (core_state vm))"
proof -
  have "pin_inv pinned (pinned (core_state vm)) ([], vm, ())"
    using assms(3) by (simp add: pin_inv_def)
  from scan_inv [OF assms(1,2,4) this]
  have inv: "distinct (pinned_objects vm1)" "pinned (core_state vm) \<inter> set (pinned_objects vm1) = {}"
    "pinned (core_state vm1) = pinned (core_state vm) \<union> set (pinned_objects vm1)"
    by (simp_all add: pin_inv_def)
  then obtain t where "unpin_pinned_objects c mm vm1 = Ok (vm1\<lparr>pinned_objects := [], core_state := t\<rparr>)"
    "pinned t = pinned (core_state vm)"
    using unpin_all [OF assms(1), of "pinned_objects vm1" "pinned (core_state vm)" "vm1\<lparr>pinned_objects := []\<rparr>" c]
    by (auto simp: unpin_pinned_objects_def)
  then show ?thesis
    using assms(2) inv(3) scan_needs_binding [OF assms(2,4)] by (auto simp: process_weak_refs_def)
qed

text \<open>
  C13. A collection leaves the pinned objects as they were. While it runs, exactly the
  objects pinned before and those recorded in \<open>pinned_objects\<close> are pinned; processing
  weak references unpins the recorded ones, none of its checks fails, and the record is
  empty again.
\<close>

theorem pinning_balanced:
  assumes "pin_ok mm pinned" "object_pinning c" "pinned_objects vm = []"
    and "scan_vm_specific_roots c mm create depth (vm, b) = Some (Ok (vm1, b1))"
  shows "pinned (core_state vm1) = pinned (core_state vm) \<union> set (pinned_objects vm1) \<and>
    (\<exists>vm2. process_weak_refs c mm vm1 = Ok (False, vm2) \<and>
      pinned (core_state vm2) = pinned (core_state vm) \<and> pinned_objects vm2 = [])"
  using weak_refs_unpin [OF assms] by auto

text \<open>One object, referred to by the only module slot; a core whose state lists the pinned objects.\<close>

definition pin_cfg :: cfg where
  "pin_cfg = sample_cfg\<lparr>object_pinning := True, get_mutator_threads := 0, get_modules_size := 1\<rparr>"

definition pin_mmtk :: "u64 list mmtk" where
  "pin_mmtk =
     \<lparr>starting_heap_address = 0x10000, last_heap_address = 0x20000,
      is_mmtk_object = (\<lambda>t a. a = 0x10000), visit_edge = (\<lambda>e t. t),
      trace_object = (\<lambda>a s. (a, s)), is_reachable = (\<lambda>t a. a = 0x10000),
      pin_object = (\<lambda>a t. (a \<notin> set t, if a \<in> set t then t else a # t)),
      unpin_object = (\<lambda>a t. (a \<in> set t, removeAll a t)),
      alloc_copy = (\<lambda>from bytes align offset sem s. (0x18000, s)), post_copy = (\<lambda>obj bytes sem s. s)\<rparr>"

lemma pin_mmtk_ok: "pin_ok pin_mmtk set"
  by (auto simp: pin_ok_def pin_mmtk_def)

definition pin_vm :: "u64 list vm" where
  "pin_vm = init_vm (word_mem ((0x6000, 0x10000) # rtti_words 0x1000 5 24 0x2000 @ obj_words 0x10000 0x1000 0 [0])) []"

lemma pin_cfg_simps [simp]:
  "dbg pin_cfg" "uses_lockword pin_cfg" "object_pinning pin_cfg" "get_modules_size pin_cfg = 1"
  "get_modules pin_cfg = 0x6000" "get_mutator_threads pin_cfg = 0"
  by (simp_all add: pin_cfg_def sample_cfg_def)

lemma pin_header: "header_ok pin_cfg (memory pin_vm) 0x10000 0 0"
  by (auto simp: header_ok_def pin_vm_def abi_defs pin_cfg_def sample_cfg_def ptr_simps inverse_mask_def
      is_ptr_aligned_def)

lemma pin_scan:
  "\<exists>vm1 b1. scan_vm_specific_roots pin_cfg pin_mmtk (\<lambda>p f. f @ [p]) (Suc 0) (pin_vm, no_bufs) = Some (Ok (vm1, b1))"
proof -
  have "roots_of pin_cfg pin_mmtk (memory pin_vm) t (Suc 0) 0x10000 = Ok [0x10000]" for t
    by (rule roots_of_plain [OF pin_header]) (simp_all add: lock_defs)
  from reports_object [OF this]
  have mark: "mmtk_mark_object pin_cfg pin_mmtk (Suc 0) 0x10000 (vm, rcb) = emit pin_cfg [0x10000] (vm, rcb)"
    if "memory vm = memory pin_vm" for vm :: "u64 list vm" and rcb :: "u64 list list roots_closure \<times> u64 list list bufs"
    using that by (rule reportsD) simp
  have load: "load64 (memory pin_vm) 0x6000 = Ok 0x10000"
    by (simp add: pin_vm_def abi_defs)
  have upto: "[0..0] = [0 :: int]" by (simp add: upto.simps)
  have core: "pin_object pin_mmtk 0x10000 (core_state pin_vm) = (True, [0x10000])" "is_word_in_heap pin_mmtk 0x10000"
    "is_object pin_mmtk vm 0x10000" "binding_set pin_vm" for vm
    by (simp_all add: pin_mmtk_def pin_vm_def is_word_in_heap_def is_object_def)
  show ?thesis
    by (simp add: core scan_vm_specific_roots_def scan_roots_in_all_mutator_threads_def with_roots_closure_def
        mark_threads.simps rc_new_def to_nodes_closure_def report_nodes_and_renew_buffer_def with_capacity_def
        no_bufs_def rc_drop_def release_buffer_def from_raw_parts_def mmtk_mark_modules_def upto mark_module_def
        ptr_offset_def load pin_word_def append_pins_def append_to_binding_def mmtk_mark_field_def mark_field_with_def mark
        emit_def rc_do_work_def write_slot_def WORK_PACKET_CAPACITY_def rc_flush_def Let_def
        del: mmtk_mark_object.simps)
qed

theorem pinning_balanced_witness:
  "\<exists>vm1 b1. scan_vm_specific_roots pin_cfg pin_mmtk (\<lambda>p f. f @ [p]) (Suc 0) (pin_vm, no_bufs) = Some (Ok (vm1, b1)) \<and>
    set (core_state vm1) = set (core_state pin_vm) \<union> set (pinned_objects vm1) \<and>
    (\<exists>vm2. process_weak_refs pin_cfg pin_mmtk vm1 = Ok (False, vm2) \<and>
      set (core_state vm2) = set (core_state pin_vm) \<and> pinned_objects vm2 = [])"
proof -
  obtain vm1 b1 where r: "scan_vm_specific_roots pin_cfg pin_mmtk (\<lambda>p f. f @ [p]) (Suc 0) (pin_vm, no_bufs)
      = Some (Ok (vm1, b1))"
    using pin_scan by blast
  have "pinned_objects pin_vm = []" by (simp add: pin_vm_def)
  from pinning_balanced [OF pin_mmtk_ok _ this r] r show ?thesis by auto
qed

end
