(* ===== verification/Pinned_Scans.thy ===== *)
theory Pinned_Scans
  imports Pinning
begin

text \<open>
  Root scanning in a build with \<open>object_pinning\<close> against the build without it. The feature
  only adds effects on the pinned objects: the roots that are reported, their packets, the
  weak references pushed, the errors and the cases where the scan does not return are the
  same. And it has its purpose: what a scan takes for a reference is pinned afterwards.
\<close>

section \<open>What does not depend on the feature\<close>

definition unpinned :: "'a upcalls_scheme \<Rightarrow> 'a upcalls_scheme" where
  "unpinned c = c\<lparr>object_pinning := False\<rparr>"

lemma unpinned_simps [simp]:
  "\<not> object_pinning (unpinned c)" "dbg (unpinned c) = dbg c" "uses_lockword (unpinned c) = uses_lockword c"
  "get_modules (unpinned c) = get_modules c" "get_modules_size (unpinned c) = get_modules_size c"
  "get_stack_range (unpinned c) = get_stack_range c" "get_regs_range (unpinned c) = get_regs_range c"
  "get_mutator_threads (unpinned c) = get_mutator_threads c"
  "get_allocation_alignment (unpinned c) = get_allocation_alignment c"
  "get_array_ids_min (unpinned c) = get_array_ids_min c" "get_array_ids_max (unpinned c) = get_array_ids_max c"
  "get_weak_ref_ids_min (unpinned c) = get_weak_ref_ids_min c"
  "get_weak_ref_ids_max (unpinned c) = get_weak_ref_ids_max c"
  by (simp_all add: unpinned_def)

lemma unpinned_layout [simp]:
  "lock_word_field (unpinned c) = lock_word_field c" "Runtime (unpinned c) = Runtime c" "Rtti (unpinned c) = Rtti c"
  "Object (unpinned c) = Object c" "ArrayHeader (unpinned c) = ArrayHeader c"
  by (simp_all add: lock_word_field_def Runtime_def Rtti_def Object_def ArrayHeader_def)

lemma unpinned_abi [simp]:
  "debug_assert (unpinned c) = debug_assert c" "inverse_mask (unpinned c) = inverse_mask c"
  "is_ptr_aligned (unpinned c) = is_ptr_aligned c" "obj_rtti (unpinned c) = obj_rtti c"
  "obj_lock_word (unpinned c) = obj_lock_word c" "rtti_lock_word_addr (unpinned c) = rtti_lock_word_addr c"
  "is_weak_reference (unpinned c) = is_weak_reference c" "obj_size (unpinned c) = obj_size c"
proof -
  show da: "debug_assert (unpinned c) = debug_assert c"
    by (intro ext) (simp add: debug_assert_def)
  show im: "inverse_mask (unpinned c) = inverse_mask c" by (simp add: inverse_mask_def)
  show al: "is_ptr_aligned (unpinned c) = is_ptr_aligned c" by (intro ext) (simp add: is_ptr_aligned_def im)
  show "obj_rtti (unpinned c) = obj_rtti c" "obj_lock_word (unpinned c) = obj_lock_word c"
    "rtti_lock_word_addr (unpinned c) = rtti_lock_word_addr c" "is_weak_reference (unpinned c) = is_weak_reference c"
    "obj_size (unpinned c) = obj_size c"
    by (intro ext, simp add: obj_rtti_def obj_lock_word_def rtti_lock_word_addr_def is_weak_reference_def rtti_id_def
        obj_size_def is_array_def array_size_def array_length_def array_stride_def round_to_next_multiple_def
        rtti_size_def da al cong: if_cong)+
qed

lemma unpinned_mark [simp]:
  "push_if_weak (unpinned c) = push_if_weak c" "mark_lock_words_with (unpinned c) = mark_lock_words_with c"
  "mmtk_mark_object (unpinned c) mm depth = mmtk_mark_object c mm depth"
  "mmtk_mark_conservative (unpinned c) mm depth = mmtk_mark_conservative c mm depth"
  "mmtk_mark_field (unpinned c) mm depth = mmtk_mark_field c mm depth"
proof -
  show push: "push_if_weak (unpinned c) = push_if_weak c" by (intro ext) (simp add: push_if_weak_def)
  have locks: "mark_lock_words_with (unpinned c) = mark_lock_words_with c"
    by (intro ext) (simp add: mark_lock_words_with_def)
  then show "mark_lock_words_with (unpinned c) = mark_lock_words_with c" .
  have obj: "mmtk_mark_object (unpinned c) mm d = mmtk_mark_object c mm d" for mm d
    by (induction d) (simp_all add: push locks)
  then show "mmtk_mark_object (unpinned c) mm depth = mmtk_mark_object c mm depth" .
  show "mmtk_mark_conservative (unpinned c) mm depth = mmtk_mark_conservative c mm depth"
    by (intro ext) (simp add: mmtk_mark_conservative_def obj cong: if_cong)
  show "mmtk_mark_field (unpinned c) mm depth = mmtk_mark_field c mm depth"
    by (simp add: mmtk_mark_field_def obj)
qed


section \<open>The abstraction: pins are hidden\<close>

text \<open>\<open>pin_neutral\<close>: pinning does not change what is an object.\<close>

definition pin_neutral :: "'t mmtk \<Rightarrow> bool" where
  "pin_neutral mm \<longleftrightarrow> (\<forall>a t. is_mmtk_object mm (snd (pin_object mm a t)) = is_mmtk_object mm t)"

definition hide :: "'t \<Rightarrow> u64 list \<Rightarrow> 't vm \<times> 'r \<Rightarrow> 't vm \<times> 'r" where
  "hide t p s = ((fst s)\<lparr>core_state := t, pinned_objects := p\<rparr>, snd s)"

definition hide_pins :: "'t \<Rightarrow> u64 list \<Rightarrow> u64 list \<times> 't vm \<times> 'r \<Rightarrow> u64 list \<times> 't vm \<times> 'r" where
  "hide_pins t p st = ([], hide t p (snd st))"

definition same_objects :: "'t mmtk \<Rightarrow> 't \<Rightarrow> 't vm \<times> 'r \<Rightarrow> bool" where
  "same_objects mm t s \<longleftrightarrow>
     is_mmtk_object mm (core_state (fst s)) = is_mmtk_object mm t \<and> binding_set (fst s)"

lemma hide_simps [simp]:
  "memory (fst (hide t p s)) = memory (fst s)" "snd (hide t p s) = snd s"
  "core_state (fst (hide t p s)) = t" "fst (hide_pins t p st) = []" "snd (hide_pins t p st) = hide t p (snd st)"
  by (simp_all add: hide_def hide_pins_def)

lemma hide_eq: "hide t p = (\<lambda>(vm, r). (vm\<lparr>core_state := t, pinned_objects := p\<rparr>, r))"
  by (auto simp: hide_def)

lemma same_objects_frame: "frame s' = frame s \<Longrightarrow> same_objects mm t s' = same_objects mm t s"
  by (simp add: frame_def same_objects_def)

lemma hide_is_object: "same_objects mm t s \<Longrightarrow> is_object mm (fst (hide t p s)) = is_object mm (fst s)"
  by (simp add: same_objects_def is_object_def fun_eq_iff)

text \<open>Marking sees mmtk-core only through \<open>is_mmtk_object\<close>, and does not see the pinned objects.\<close>

definition blind :: "'t mmtk \<Rightarrow> 't \<Rightarrow> u64 list \<Rightarrow> ('t vm \<times> 'r \<Rightarrow> ('t vm \<times> 'r) res) \<Rightarrow> bool" where
  "blind mm t p f \<longleftrightarrow> refines (same_objects mm t) (hide t p) (same_objects mm t) (hide t p) f f"

lemma blind_mark_field:
  assumes "\<And>w. blind mm t p (rec w)"
  shows "blind mm t p (mark_field_with mm rec fld)"
  unfolding blind_def mark_field_with_def [abs_def]
  by (intro refines_if refines_return)
     (use assms in \<open>auto simp: blind_def refines_def hide_is_object\<close>)

lemma blind_mark_lock_words:
  assumes "\<And>w. blind mm t p (rec w)"
  shows "blind mm t p (mark_lock_words_with c mm rec obj)"
proof -
  note field = blind_mark_field [OF assms, unfolded blind_def]
  have lock: "blind mm t p (\<lambda>s. if field_is_inflated_lock l then mark_field_with mm rec (field_alligned_lock_ref l) s else Ok s)"
    for l
    using field by (auto simp: blind_def refines_def)
  show ?thesis
    unfolding blind_def mark_lock_words_with_def [abs_def]
    by (intro refines_if refines_read refines_bind [OF lock [unfolded blind_def]] refines_return lock [unfolded blind_def])
       auto
qed

lemma blind_report:
  "blind mm t p (\<lambda>(vm, rcb). bindR (push_if_weak c obj vm) (\<lambda>vm.
     bindR (debug_assert c (bindR (obj_size c (memory vm) obj) (\<lambda>n. Ok (n \<noteq> 0)))) (\<lambda>_.
     bindR (rc_do_work obj rcb) (\<lambda>rcb. Ok (vm, rcb)))))"
  unfolding blind_def
proof (rule refinesI, goal_cases)
  case (1 s)
  obtain vm rcb where s: "s = (vm, rcb)" by (cases s)
  show ?case
    by (cases "is_weak_reference c (memory vm) obj"; cases "rc_do_work obj rcb";
        cases "debug_assert c (bindR (obj_size c (memory vm) obj) (\<lambda>n. Ok (n \<noteq> 0)))")
       (simp_all add: s hide_def push_if_weak_def weak_ref_stack_push_def)
next
  case (2 s s')
  then show ?case
    by (auto simp: same_objects_def push_if_weak_def weak_ref_stack_push_def split: prod.splits if_splits)
qed

lemma blind_mark_object: "blind mm t p (mmtk_mark_object c mm depth obj)"
proof (induction depth arbitrary: obj)
  case 0
  show ?case by (simp add: blind_def refines_fail)
next
  case (Suc depth)
  show ?case
    unfolding blind_def mmtk_mark_object.simps
    by (rule refines_read, simp,
        rule refines_bind [OF blind_mark_lock_words [OF Suc, unfolded blind_def] blind_report [unfolded blind_def]])
qed

lemma blind_mark_conservative: "blind mm t p (mmtk_mark_conservative c mm depth a)"
  unfolding blind_def mmtk_mark_conservative_def [abs_def] Let_def
  by (intro refines_read refines_if refines_return blind_mark_object [unfolded blind_def])
     (auto simp: hide_is_object)


section \<open>Ranges, modules and threads\<close>

definition pins_inv :: "'t mmtk \<Rightarrow> 't \<Rightarrow> u64 list \<times> 't vm \<times> 'r \<Rightarrow> bool" where
  "pins_inv mm t st \<longleftrightarrow> same_objects mm t (snd st)"

definition blind_pins ::
    "'t mmtk \<Rightarrow> 't \<Rightarrow> u64 list \<Rightarrow> (u64 list \<times> 't vm \<times> 'r \<Rightarrow> (u64 list \<times> 't vm \<times> 'r) res) \<Rightarrow>
     (u64 list \<times> 't vm \<times> 'r \<Rightarrow> (u64 list \<times> 't vm \<times> 'r) res) \<Rightarrow> bool" where
  "blind_pins mm t p f g \<longleftrightarrow> refines (pins_inv mm t) (hide_pins t p) (pins_inv mm t) (hide_pins t p) f g"

lemma pin_word_unpinned [simp]: "pin_word (unpinned c) mm w st = st"
  by (simp add: pin_word_def split: prod.splits)

lemma append_pins_unpinned [simp]: "append_pins (unpinned c) st = Ok (snd st)"
  by (simp add: append_pins_def split: prod.splits)

lemma pin_word_hidden:
  assumes "pin_neutral mm"
  shows "hide t p (snd (pin_word c mm w st)) = hide t p (snd st)"
    "same_objects mm t (snd (pin_word c mm w st)) = same_objects mm t (snd st)"
  using assms
  by (auto simp: pin_word_def hide_def same_objects_def pin_neutral_def fun_eq_iff split: prod.splits) (metis snd_conv)+

lemma blind_after_pin:
  assumes "pin_neutral mm" "blind mm t p f"
  shows "blind_pins mm t p (\<lambda>st. case pin_word c mm w st of (pins, s) \<Rightarrow> bindR (f s) (\<lambda>s. Ok (pins, s)))
    (\<lambda>st. case pin_word (unpinned c) mm w st of (pins, s) \<Rightarrow> bindR (f s) (\<lambda>s. Ok (pins, s)))"
  unfolding blind_pins_def case_prod_beta
proof (rule refinesI, goal_cases)
  case (1 st)
  then have "same_objects mm t (snd (pin_word c mm w st))"
    by (simp add: pins_inv_def pin_word_hidden [OF assms(1)])
  from refines_eq [OF assms(2) [unfolded blind_def] this] show ?case
    by (cases "f (snd (pin_word c mm w st))")
       (simp_all add: pin_word_hidden [OF assms(1)] hide_pins_def)
next
  case (2 st st')
  then have "same_objects mm t (snd (pin_word c mm w st))"
    by (simp add: pins_inv_def pin_word_hidden [OF assms(1)])
  from refines_inv [OF assms(2) [unfolded blind_def] this] show ?case
    using 2(2) by (auto simp: pins_inv_def)
qed

lemma blind_range_word:
  assumes "pin_neutral mm"
  shows "blind_pins mm t p (mark_range_word c mm depth w) (mark_range_word (unpinned c) mm depth w)"
  unfolding blind_pins_def mark_range_word_def [abs_def] unpinned_mark unpinned_abi
  by (intro refines_read refines_if refines_return
      blind_after_pin [OF assms blind_mark_conservative, unfolded blind_pins_def]) simp_all

lemma blind_range_loop:
  fixes mm :: "'t mmtk" and c :: "'a upcalls_scheme"
  assumes "pin_neutral mm"
  shows "blind_pins mm t p (mark_range_loop c mm depth a hi :: u64 list \<times> ('t, 'f) mark_state \<Rightarrow> _) (mark_range_loop (unpinned c) mm depth a hi)"
proof (induction "nat (2 ^ 64 - uint a)" arbitrary: a rule: less_induct)
  case less
  have tail: "blind_pins mm t p (\<lambda>st :: u64 list \<times> ('t, 'f) mark_state. bindR (ptr_offset a 1) (\<lambda>next. mark_range_loop c mm depth next hi st))
      (\<lambda>st. bindR (ptr_offset a 1) (\<lambda>next. mark_range_loop (unpinned c) mm depth next hi st))"
  proof (cases "ptr_offset a 1")
    case (Inl e)
    then show ?thesis by (simp add: blind_pins_def refines_fail)
  next
    case (Inr "next")
    then have "nat (2 ^ 64 - uint next) < nat (2 ^ 64 - uint a)"
      by (auto simp: ptr_offset_def uint_word_ariths split: if_splits)
    from less [OF this] Inr show ?thesis by simp
  qed
  have unfold: "mark_range_loop c mm depth a hi = (\<lambda>st :: u64 list \<times> ('t, 'f) mark_state. if a \<le> hi
      then bindR (load64 (memory (fst (snd st))) a) (\<lambda>addr. bindR (mark_range_word c mm depth addr st)
        (\<lambda>st. bindR (ptr_offset a 1) (\<lambda>next. mark_range_loop c mm depth next hi st)))
      else Ok st)" for c :: "'a upcalls_scheme"
    by (intro ext) (subst mark_range_loop.simps, rule refl)
  show ?case
    unfolding blind_pins_def unfold [of c] unfold [of "unpinned c"]
    by (intro refines_if refines_read refines_return
        refines_bind [OF blind_range_word [OF assms, unfolded blind_pins_def] tail [unfolded blind_pins_def]])
       (simp_all add: hide_pins_def)
qed

text \<open>A function that collects pins of its own and appends them at its end.\<close>

lemma blind_collecting:
  assumes "blind_pins mm t p f g"
  shows "refines (same_objects mm t) (hide t p) (same_objects mm t) (hide t p)
    (\<lambda>s. bindR (f ([], s)) (append_pins c))
    (\<lambda>s. bindR (g ([], s)) (append_pins (unpinned c)))"
proof (rule refinesI, goal_cases)
  case (1 s)
  then have inv: "pins_inv mm t ([], s)" by (simp add: pins_inv_def)
  have eq: "g (hide_pins t p ([], s)) = mapR (hide_pins t p) (f ([], s))"
    by (rule refines_eq [OF assms [unfolded blind_pins_def] inv])
  show ?case
  proof (cases "f ([], s)")
    case (Inr st)
    have "binding_set (fst (snd st))"
      using refines_inv [OF assms [unfolded blind_pins_def] inv Inr] by (simp add: pins_inv_def same_objects_def)
    then show ?thesis
      using eq Inr by (auto simp: hide_pins_def append_pins_def append_to_binding_def hide_def split: prod.splits)
  qed (use eq in \<open>simp add: hide_pins_def\<close>)
next
  case (2 s s')
  then obtain st where st: "f ([], s) = Ok st" "append_pins c st = Ok s'" by auto
  have "pins_inv mm t st"
    by (rule refines_inv [OF assms [unfolded blind_pins_def] _ st(1)]) (use 2(1) in \<open>simp add: pins_inv_def\<close>)
  then show ?case
    using st(2) by (auto simp: pins_inv_def same_objects_def append_pins_def append_to_binding_def split: prod.splits if_splits)
qed

abbreviation hides ::
    "'t mmtk \<Rightarrow> 't \<Rightarrow> u64 list \<Rightarrow> ('t vm \<times> 'r \<Rightarrow> ('t vm \<times> 'r) res) \<Rightarrow> ('t vm \<times> 'r \<Rightarrow> ('t vm \<times> 'r) res) \<Rightarrow> bool" where
  "hides mm t p f g \<equiv> refines (same_objects mm t) (hide t p) (same_objects mm t) (hide t p) f g"

lemma mark_range_hides:
  assumes "pin_neutral mm"
  shows "hides mm t p (mmtk_mark_range c mm depth lo hi) (mmtk_mark_range (unpinned c) mm depth lo hi)"
  unfolding mmtk_mark_range_def [abs_def] unpinned_abi
  by (intro refines_read blind_collecting blind_range_loop [OF assms]) simp_all

lemma mark_program_stack_hides:
  assumes "pin_neutral mm"
  shows "hides mm t p (mmtk_mark_program_stack c mm depth tls) (mmtk_mark_program_stack (unpinned c) mm depth tls)"
  unfolding mmtk_mark_program_stack_def [abs_def] Let_def unpinned_simps
  by (intro refines_bind [OF mark_range_hides [OF assms]] refines_read mark_range_hides [OF assms]) simp_all

lemma mark_modules_hides:
  assumes "pin_neutral mm"
  shows "hides mm t p (mmtk_mark_modules c mm depth) (mmtk_mark_modules (unpinned c) mm depth)"
proof -
  have field: "blind mm t p (mmtk_mark_field c mm depth w)" for w
    unfolding mmtk_mark_field_def by (rule blind_mark_field [OF blind_mark_object])
  have "blind_pins mm t p (mark_module c mm depth i) (mark_module (unpinned c) mm depth i)" for i
    unfolding blind_pins_def mark_module_def [abs_def] unpinned_simps unpinned_mark
    by (intro refines_read blind_after_pin [OF assms field, unfolded blind_pins_def]) simp_all
  then show ?thesis
    unfolding mmtk_mark_modules_def [abs_def] unpinned_simps
    by (intro blind_collecting) (auto simp: blind_pins_def intro: refines_foldR)
qed


lemma thread_step_hides:
  assumes "pin_neutral mm"
  shows "refines (same_objects mm t) (hide t p) (\<lambda>r. same_objects mm t (snd r)) (\<lambda>r. (fst r, hide t p (snd r)))
    (thread_step c mm depth head) (thread_step (unpinned c) mm depth head)"
  unfolding thread_step_def [abs_def]
  by (intro refines_read refines_bind [OF mark_program_stack_hides [OF assms]] refines_return) simp_all

lemma walk_hidden:
  assumes neutral: "pin_neutral mm"
    and "mark_threads c mm depth head s = Some r" "same_objects mm t s"
  shows "mark_threads (unpinned c) mm depth head (hide t p s) = Some (mapR (hide t p) r) \<and>
    (\<forall>s'. r = Ok s' \<longrightarrow> same_objects mm t s')"
  using assms(2,3)
proof (induction rule: mark_threads_induct)
  case (stop s)
  then show ?case by (subst mark_threads_step) simp
next
  case (fail head s e)
  then show ?case
    using refines_eq [OF thread_step_hides [OF neutral, where c = c and depth = depth and head = head and p = p], of t s]
    by (subst mark_threads_step) simp
next
  case (node head s nxt s1 r)
  have "same_objects mm t s1"
    using refines_inv [OF thread_step_hides [OF neutral] node.prems node.hyps(2)] by simp
  with node show ?case
    using refines_eq [OF thread_step_hides [OF neutral, where c = c and depth = depth and head = head and p = p] node.prems]
    by (subst mark_threads_step) simp
qed

text \<open>Hiding the pins makes no walk end that does not.\<close>

lemma walk_returns:
  assumes neutral: "pin_neutral mm"
    and "mark_threads (unpinned c) mm depth head s0 = Some r" "s0 = hide t p s" "same_objects mm t s"
  shows "\<exists>r'. mark_threads c mm depth head s = Some r'"
  using assms(2-4)
proof (induction arbitrary: s rule: mark_threads_induct)
  case (stop s0)
  then show ?case by (subst mark_threads_step) simp
next
  case (fail head s0 e)
  then show ?case
    using refines_eq [OF thread_step_hides [OF neutral, where c = c and depth = depth and head = head and p = p] fail.prems(2)]
    by (subst mark_threads_step) (auto split: sum.splits)
next
  case (node head s0 nxt s1 r)
  note eq = refines_eq [OF thread_step_hides [OF neutral, where c = c and depth = depth and head = head and p = p] node.prems(2)]
  then obtain q where q: "thread_step c mm depth head s = Ok (nxt, q)" "s1 = hide t p q"
    using node.hyps(2) node.prems(1) by (cases "thread_step c mm depth head s") auto
  have "same_objects mm t q"
    using refines_inv [OF thread_step_hides [OF neutral] node.prems(2) q(1)] by simp
  with node.IH [OF q(2)] q(1) show ?case by (subst mark_threads_step) simp
qed

lemma mark_threads_hides:
  fixes s :: "('t, 'f) mark_state"
  assumes "pin_neutral mm" "same_objects mm t s"
  shows "mark_threads (unpinned c) mm depth head (hide t p s) = map_option (mapR (hide t p)) (mark_threads c mm depth head s)"
proof (cases "mark_threads c mm depth head s")
  case None
  then show ?thesis
    using walk_returns [OF assms(1) _ refl assms(2)] by (cases "mark_threads (unpinned c) mm depth head (hide t p s)") fastforce+
next
  case (Some r)
  then show ?thesis using walk_hidden [OF assms(1) Some assms(2)] by simp
qed



section \<open>Whole scans\<close>

lemma with_roots_closure_hides:
  fixes f g :: "('t, 'f) mark_state \<Rightarrow> ('t, 'f) mark_state res"
  assumes "hides mm t p f g"
  shows "hides mm t p (with_roots_closure create f) (with_roots_closure create g)"
proof (rule refinesI, goal_cases)
  case (1 s)
  obtain vm b where s: "s = (vm, b)" by (cases s)
  show ?case
  proof (cases "rc_new (to_nodes_closure create) b")
    case (Inl e)
    then show ?thesis by (simp add: s with_roots_closure_def hide_def)
  next
    case (Inr rcb)
    have "same_objects mm t (vm, rcb)" using 1 by (simp add: s same_objects_def)
    from refines_eq [OF assms this] show ?thesis
      using Inr by (cases "f (vm, rcb)") (auto simp: s with_roots_closure_def hide_def mapR_bindR split: prod.splits)
  qed
next
  case (2 s s')
  then obtain vm b rcb vm' rcb' where run: "s = (vm, b)" "f (vm, rcb) = Ok (vm', rcb')" "fst s' = vm'"
    by (cases s) (auto simp: with_roots_closure_def)
  have "same_objects mm t (vm', rcb')"
    by (rule refines_inv [OF assms _ run(2)]) (use 2(1) run(1) in \<open>simp add: same_objects_def\<close>)
  then show ?case by (simp add: same_objects_def run(3))
qed

lemma scan_threads_hides:
  fixes b :: "'f bufs"
  assumes "pin_neutral mm" "same_objects mm t (vm, b)"
  shows "scan_roots_in_all_mutator_threads (unpinned c) mm create depth (hide t p (vm, b)) =
      map_option (mapR (hide t p)) (scan_roots_in_all_mutator_threads c mm create depth (vm, b)) \<and>
    (\<forall>s'. scan_roots_in_all_mutator_threads c mm create depth (vm, b) = Some (Ok s') \<longrightarrow> same_objects mm t s')"
proof (cases "rc_new (to_nodes_closure create) b")
  case (Inl e)
  then show ?thesis by (simp add: scan_roots_in_all_mutator_threads_def hide_def)
next
  case (Inr rcb)
  have obs: "same_objects mm t (vm, rcb)" using assms(2) by (simp add: same_objects_def)
  note walk = mark_threads_hides [OF assms(1) obs, where c = c and depth = depth and head = "get_mutator_threads c" and p = p]
  have hide: "hide t p (vm, rcb) = (fst (hide t p (vm, b)), rcb)" by (simp add: hide_def)
  have kept: "same_objects mm t s'" if "mark_threads c mm depth (get_mutator_threads c) (vm, rcb) = Some (Ok s')" for s'
    using walk_hidden [OF assms(1) that obs] by blast
  show ?thesis
  proof (cases "mark_threads c mm depth (get_mutator_threads c) (vm, rcb)")
    case None
    then show ?thesis
      using Inr walk hide by (simp add: scan_roots_in_all_mutator_threads_def hide_def)
  next
    case (Some r)
    then show ?thesis
      using Inr walk hide kept
      by (cases r) (auto simp: scan_roots_in_all_mutator_threads_def hide_def same_objects_def mapR_bindR split: prod.splits)
  qed
qed

lemma scan_hides:
  fixes b :: "'f bufs"
  assumes "pin_neutral mm" "same_objects mm t (vm, b)"
  shows "scan_vm_specific_roots (unpinned c) mm create depth (hide t p (vm, b)) =
    map_option (mapR (hide t p)) (scan_vm_specific_roots c mm create depth (vm, b))"
proof -
  note threads = scan_threads_hides [OF assms, where c = c and create = create and depth = depth and p = p]
  note mods = with_roots_closure_hides [OF mark_modules_hides [OF assms(1), where c = c and depth = depth and t = t and p = p]]
  show ?thesis
  proof (cases "scan_roots_in_all_mutator_threads c mm create depth (vm, b)")
    case None
    then show ?thesis using threads by (simp add: scan_vm_specific_roots_def)
  next
    case (Some r)
    then show ?thesis
      using threads refines_eq [OF mods] by (cases r) (auto simp: scan_vm_specific_roots_def)
  qed
qed

text \<open>
  C14. A build with \<open>object_pinning\<close> scans the same roots as one without: as long as pinning
  does not change what is an object and the binding is set, the two scans report the same roots in the same
  packets, push the same weak references, fail alike and loop for ever alike. They differ in
  mmtk-core's state and in the list of pinned objects only.
\<close>

theorem pinned_scans_alike:
  assumes "pin_neutral mm" "binding_set vm"
  shows "scan_vm_specific_roots (c\<lparr>object_pinning := False\<rparr>) mm create depth (vm, b) =
    map_option (mapR (\<lambda>(vm', b'). (vm'\<lparr>core_state := core_state vm, pinned_objects := pinned_objects vm\<rparr>, b')))
      (scan_vm_specific_roots c mm create depth (vm, b))"
proof -
  have "hide (core_state vm) (pinned_objects vm) (vm, b) = (vm, b)" by (simp add: hide_def)
  moreover have "same_objects mm (core_state vm) (vm, b)" using assms(2) by (simp add: same_objects_def)
  ultimately show ?thesis
    using scan_hides [OF assms(1), of "core_state vm" vm b c create depth "pinned_objects vm"]
    by (simp add: unpinned_def hide_eq)
qed

theorem pinned_scans_alike_witness:
  "\<exists>vm1 b1. scan_vm_specific_roots pin_cfg pin_mmtk (\<lambda>p f. f @ [p]) (Suc 0) (pin_vm, no_bufs) = Some (Ok (vm1, b1)) \<and>
    scan_vm_specific_roots (pin_cfg\<lparr>object_pinning := False\<rparr>) pin_mmtk (\<lambda>p f. f @ [p]) (Suc 0) (pin_vm, no_bufs) =
      Some (Ok (vm1\<lparr>core_state := [], pinned_objects := []\<rparr>, b1))"
proof -
  have "pin_neutral pin_mmtk" by (simp add: pin_neutral_def pin_mmtk_def)
  then show ?thesis
    using pin_scan pinned_scans_alike [where c = pin_cfg and mm = pin_mmtk and create = "\<lambda>p f. f @ [p]"
        and depth = "Suc 0" and vm = pin_vm and b = no_bufs] by (auto simp: pin_vm_def)
qed


text \<open>So what is specified of the roots holds in both builds.\<close>

lemma unpinned_roots [simp]:
  "alignment_log (unpinned c) k = alignment_log c k" "ranges_ok (unpinned c) = ranges_ok c"
  "weak_of (unpinned c) = weak_of c" "all_thread_roots (unpinned c) = all_thread_roots c"
  "module_roots (unpinned c) = module_roots c"
proof -
  have lock: "lock_roots (unpinned c) = lock_roots c"
    by (intro ext) (simp add: lock_roots_def)
  have obj: "roots_of (unpinned c) mm m t d = roots_of c mm m t d" for mm :: "'t mmtk" and m t d
    by (induction d) (simp_all add: lock)
  have word: "word_roots (unpinned c) = word_roots c"
    by (intro ext) (simp add: word_roots_def candidate_def obj)
  have thread: "thread_roots (unpinned c) = thread_roots c"
    by (intro ext) (simp add: thread_roots_def range_roots_def word)
  show "alignment_log (unpinned c) k = alignment_log c k" by (simp add: alignment_log_def)
  show "ranges_ok (unpinned c) = ranges_ok c" by (intro ext) (simp add: ranges_ok_def)
  show "weak_of (unpinned c) = weak_of c" by (intro ext) (simp add: weak_of_def)
  show "all_thread_roots (unpinned c) = all_thread_roots c" by (intro ext) (simp add: all_thread_roots_def thread)
  show "module_roots (unpinned c) = module_roots c" by (intro ext) (simp add: module_roots_def obj)
qed

lemma scan_vm_roots_any_build:
  assumes "alignment_log c k" "pin_neutral mm" "binding_set vm" "list_all (ranges_ok c) ts" "fresh_ok b"
    and "thread_list (memory vm) (get_mutator_threads c) ts"
    and "all_thread_roots c mm (memory vm) (core_state vm) depth ts = Ok ps"
    and "module_roots c mm (memory vm) (core_state vm) depth = Ok qs"
  shows "\<exists>vm' b'. scan_vm_specific_roots c mm create depth (vm, b) = Some (Ok (vm', b')) \<and>
    vm'\<lparr>core_state := core_state vm, pinned_objects := pinned_objects vm\<rparr> =
      push_weak_upd (weak_of c (memory vm) (ps @ qs)) vm \<and> delivered create (ps @ qs) b b'"
proof -
  have hidden: "hide (core_state vm) (pinned_objects vm) (vm, b) = (vm, b)" by (simp add: hide_def)
  obtain b' where b': "scan_vm_specific_roots (unpinned c) mm create depth (vm, b)
      = Some (Ok (push_weak_upd (weak_of c (memory vm) (ps @ qs)) vm, b'))" "delivered create (ps @ qs) b b'"
    using scan_vm_roots [of "unpinned c" k ts b vm mm depth ps qs create] assms by auto
  have "map_option (mapR (hide (core_state vm) (pinned_objects vm))) (scan_vm_specific_roots c mm create depth (vm, b))
      = Some (Ok (push_weak_upd (weak_of c (memory vm) (ps @ qs)) vm, b'))"
    using scan_hides [OF assms(2), of "core_state vm" vm b c create depth "pinned_objects vm"] hidden b'(1) assms(3)
    by (simp add: same_objects_def)
  then obtain r where r: "scan_vm_specific_roots c mm create depth (vm, b) = Some r"
    "mapR (hide (core_state vm) (pinned_objects vm)) r = Ok (push_weak_upd (weak_of c (memory vm) (ps @ qs)) vm, b')"
    by blast
  then obtain vm' b1 where "r = Ok (vm', b1)" "hide (core_state vm) (pinned_objects vm) (vm', b1) =
      (push_weak_upd (weak_of c (memory vm) (ps @ qs)) vm, b')"
    by (cases r) auto
  then show ?thesis using r(1) b'(2) by (auto simp: hide_def)
qed

end
