(* ===== verification/Gc_Cycle.thy ===== *)
theory Gc_Cycle
  imports Pinned_Scans
begin

text \<open>
  A collection as the binding sees it, in every build: the scan of the virtual machine's
  roots, then \<open>process_weak_refs\<close>. With \<open>object_pinning\<close> the scan asks for the binding and
  changes mmtk-core's state and the pinned objects, besides what it does without.
\<close>

text \<open>
  C1. Scanning the roots of the virtual machine follows the whole thread list, then the
  modules, reports the roots of both in packets without leaving a buffer behind, pushes
  exactly the weak references among them, and returns. In a build with \<open>object_pinning\<close> this needs the
  binding to be set and pinning not to change what is an object; nothing else changes but
  what pinning changes.
\<close>

theorem scan_vm_roots_delivers:
  assumes "alignment_log c k" "object_pinning c \<Longrightarrow> pin_neutral mm \<and> binding_set vm"
    and "list_all (ranges_ok c) ts" "fresh_ok b" "thread_list (memory vm) (get_mutator_threads c) ts"
    and "all_thread_roots c mm (memory vm) (core_state vm) depth ts = Ok ps"
    and "module_roots c mm (memory vm) (core_state vm) depth = Ok qs"
  shows "\<exists>vm' b'. scan_vm_specific_roots c mm create depth (vm, b) = Some (Ok (vm', b')) \<and>
    delivered create (ps @ qs) b b' \<and>
    vm' = (push_weak_upd (weak_of c (memory vm) (ps @ qs)) vm)
      \<lparr>core_state := core_state vm', pinned_objects := pinned_objects vm'\<rparr> \<and>
    (object_pinning c \<or> core_state vm' = core_state vm \<and> pinned_objects vm' = pinned_objects vm)"
proof (cases "object_pinning c")
  case True
  obtain vm' b' where scan: "scan_vm_specific_roots c mm create depth (vm, b) = Some (Ok (vm', b'))"
    "vm'\<lparr>core_state := core_state vm, pinned_objects := pinned_objects vm\<rparr> =
      push_weak_upd (weak_of c (memory vm) (ps @ qs)) vm" "delivered create (ps @ qs) b b'"
    using scan_vm_roots_any_build [OF assms(1) _ _ assms(3-7), of create] assms(2) [OF True] by blast
  have "vm' = (vm'\<lparr>core_state := core_state vm, pinned_objects := pinned_objects vm\<rparr>)
      \<lparr>core_state := core_state vm', pinned_objects := pinned_objects vm'\<rparr>"
    by simp
  then show ?thesis unfolding scan(2) using scan True by blast
next
  case False
  with scan_vm_roots [OF assms(1) _ assms(3-7), of create] show ?thesis
    by (auto simp: push_weak_upd_def)
qed

definition pinned_cfg :: cfg where
  "pinned_cfg = sample_cfg\<lparr>object_pinning := True\<rparr>"

lemma unpinned_pinned_cfg: "unpinned pinned_cfg = sample_cfg"
  by (simp add: unpinned_def pinned_cfg_def sample_cfg_def)

lemma pinned_cfg_as:
  "alignment_log pinned_cfg k = alignment_log sample_cfg k" "ranges_ok pinned_cfg = ranges_ok sample_cfg"
  "all_thread_roots pinned_cfg = all_thread_roots sample_cfg" "module_roots pinned_cfg = module_roots sample_cfg"
  "get_mutator_threads pinned_cfg = get_mutator_threads sample_cfg" "object_pinning pinned_cfg"
  by (simp_all only: unpinned_roots [of pinned_cfg, unfolded unpinned_pinned_cfg])
     (simp_all add: pinned_cfg_def)

lemma sample_pin_neutral: "pin_neutral sample_mmtk"
  by (simp add: pin_neutral_def sample_mmtk_def)

theorem scan_vm_roots_delivers_witness:
  "\<exists>vm' b'. scan_vm_specific_roots pinned_cfg sample_mmtk (\<lambda>p f. f @ [p]) (Suc 0) (scan_vm, no_bufs) = Some (Ok (vm', b')) \<and>
    delivered (\<lambda>p f. f @ [p]) ([0x10000, 0x10040] @ [0x10000]) no_bufs b' \<and>
    vm' = (push_weak_upd (weak_of pinned_cfg (memory scan_vm) ([0x10000, 0x10040] @ [0x10000])) scan_vm)
      \<lparr>core_state := core_state vm', pinned_objects := pinned_objects vm'\<rparr> \<and>
    (object_pinning pinned_cfg \<or> core_state vm' = core_state scan_vm \<and> pinned_objects vm' = pinned_objects scan_vm)"
  by (rule scan_vm_roots_delivers [where k = 4 and ts = "[0x5500]"])
     (simp_all add: pinned_cfg_as sample_pin_neutral sample_thread_roots sample_thread_list all_thread_roots_def scan_vm_def
       del: thread_list.simps)

text \<open>
  C25. Over a collection the stack of weak references only grows: the root scan pushes the
  weak references among the roots, and \<open>process_weak_refs\<close> neither takes anything off it
  nor clears a slot, with \<open>object_pinning\<close> or without. It always asks not to be called again.
\<close>

theorem weak_stack_only_grows:
  assumes "alignment_log c k"
    and "object_pinning c \<Longrightarrow> pin_neutral mm \<and> binding_set vm \<and> pin_ok mm pinned \<and> pinned_objects vm = []"
    and "list_all (ranges_ok c) ts" "fresh_ok b" "thread_list (memory vm) (get_mutator_threads c) ts"
    and "all_thread_roots c mm (memory vm) (core_state vm) depth ts = Ok ps"
    and "module_roots c mm (memory vm) (core_state vm) depth = Ok qs"
  shows "\<exists>vm1 b1 vm2. scan_vm_specific_roots c mm create depth (vm, b) = Some (Ok (vm1, b1)) \<and>
    process_weak_refs c mm vm1 = Ok (False, vm2) \<and>
    weak_ref_stack vm2 = weak_ref_stack vm @ weak_of c (memory vm) (ps @ qs) \<and> memory vm2 = memory vm"
proof (cases "object_pinning c")
  case True
  obtain vm1 b1 where scan: "scan_vm_specific_roots c mm create depth (vm, b) = Some (Ok (vm1, b1))"
    "vm1\<lparr>core_state := core_state vm, pinned_objects := pinned_objects vm\<rparr> =
      push_weak_upd (weak_of c (memory vm) (ps @ qs)) vm"
    using scan_vm_roots_any_build [OF assms(1) _ _ assms(3-7), of create] assms(2) [OF True] by blast
  have "weak_ref_stack vm1 = weak_ref_stack vm @ weak_of c (memory vm) (ps @ qs)" "memory vm1 = memory vm"
    using arg_cong [OF scan(2), of weak_ref_stack] arg_cong [OF scan(2), of memory] by simp_all
  then show ?thesis
    using weak_refs_unpin [OF _ True _ scan(1), of pinned] assms(2) [OF True] scan(1) by auto
next
  case False
  with scan_vm_roots [OF assms(1) _ assms(3-7), of create] show ?thesis
    by (auto simp: process_weak_refs_def)
qed

theorem weak_stack_only_grows_witness:
  "\<exists>vm1 b1 vm2. scan_vm_specific_roots sample_cfg sample_mmtk (\<lambda>p f. f @ [p]) (Suc 0) (scan_vm, no_bufs)
      = Some (Ok (vm1, b1)) \<and> process_weak_refs sample_cfg sample_mmtk vm1 = Ok (False, vm2) \<and>
    weak_ref_stack vm2 = weak_ref_stack scan_vm @ weak_of sample_cfg (memory scan_vm) ([0x10000, 0x10040] @ [0x10000]) \<and>
    memory vm2 = memory scan_vm"
  by (rule weak_stack_only_grows [where k = 4 and ts = "[0x5500]"])
     (simp_all add: sample_thread_roots sample_thread_list all_thread_roots_def del: thread_list.simps)

end
