(* ===== verification/Scan_Pins.thy ===== *)
theory Scan_Pins
  imports Gc_Cycle
begin

text \<open>
  The purpose of \<open>object_pinning\<close>: an object that only an ambiguous word refers to must not
  move, because that word cannot be updated. After a root scan every object that a
  scanned word refers to is pinned. The code pins before it asks mmtk-core whether the
  word is an object; nothing is assumed here of pinning a word that is none, but that it
  unpins nothing and makes no objects.
\<close>

section \<open>Pins only grow\<close>

text \<open>\<open>ambiguous c mm w\<close>: conservative scanning takes the word for a possible reference.\<close>

definition ambiguous :: "'a upcalls_scheme \<Rightarrow> 't mmtk \<Rightarrow> u64 \<Rightarrow> bool" where
  "ambiguous c mm w \<longleftrightarrow> is_word_in_heap mm w \<and> is_ptr_aligned c w = Ok True"

text \<open>
  mmtk-core's contract for pinning, on objects: an object is pinned once \<open>pin_object\<close> was called on it. A
  call unpins nothing, whatever word it is given. \<open>pinned t\<close> is the set of pinned objects.
\<close>

definition pins_objects :: "'t mmtk \<Rightarrow> ('t \<Rightarrow> u64 set) \<Rightarrow> bool" where
  "pins_objects mm pinned \<longleftrightarrow>
     (\<forall>a t. is_mmtk_object mm t a \<longrightarrow> a \<in> pinned (snd (pin_object mm a t))) \<and>
     (\<forall>a t. pinned t \<subseteq> pinned (snd (pin_object mm a t)))"

text \<open>Since \<open>vm0\<close>, memory and the objects are the same, and the objects of \<open>P\<close> have been pinned.\<close>

definition holds :: "'t mmtk \<Rightarrow> ('t \<Rightarrow> u64 set) \<Rightarrow> 't vm \<Rightarrow> u64 set \<Rightarrow> 't vm \<times> 'r \<Rightarrow> bool" where
  "holds mm pinned vm0 P s \<longleftrightarrow>
     memory (fst s) = memory vm0 \<and> is_mmtk_object mm (core_state (fst s)) = is_mmtk_object mm (core_state vm0) \<and>
     pinned (core_state vm0) \<union> {w \<in> P. is_mmtk_object mm (core_state vm0) w} \<subseteq> pinned (core_state (fst s))"

lemma holds_frame: "frame s' = frame s \<Longrightarrow> holds mm pinned vm0 P s' = holds mm pinned vm0 P s"
  by (simp add: frame_def holds_def)

lemma pin_word_holds:
  assumes "pins_objects mm pinned \<and> pin_neutral mm" "object_pinning c" "holds mm pinned vm0 P (snd st)"
  shows "holds mm pinned vm0 (insert w P) (snd (pin_word c mm w st))"
proof -
  obtain pins vm r where st: "st = (pins, vm, r)" by (metis prod_cases3)
  obtain b t where bt: "pin_object mm w (core_state vm) = (b, t)" by fastforce
  then have "is_mmtk_object mm (core_state vm) w \<Longrightarrow> w \<in> pinned t" "pinned (core_state vm) \<subseteq> pinned t"
    "is_mmtk_object mm t = is_mmtk_object mm (core_state vm)"
    using assms(1) unfolding pins_objects_def pin_neutral_def by (metis snd_conv)+
  then show ?thesis using assms(2,3) bt by (auto simp: st pin_word_def holds_def)
qed

lemma append_pins_holds:
  "append_pins c st = Ok s \<Longrightarrow> holds mm pinned vm0 P s = holds mm pinned vm0 P (snd st)"
  by (auto simp: holds_def append_pins_def append_to_binding_def split: prod.splits if_splits)

text \<open>Steps that each pin the words \<open>R x\<close> pin all of them.\<close>

lemma foldR_holds:
  assumes "foldR f xs st = Ok st'" "holds mm pinned vm0 P (snd st)"
    and "\<And>x P st st'. x \<in> set xs \<Longrightarrow> holds mm pinned vm0 P (snd st) \<Longrightarrow> f x st = Ok st' \<Longrightarrow>
      holds mm pinned vm0 (P \<union> R x) (snd st')"
  shows "holds mm pinned vm0 (P \<union> (\<Union>x\<in>set xs. R x)) (snd st')"
  using assms
proof (induction xs arbitrary: P st)
  case (Cons x xs)
  then obtain st1 where st1: "f x st = Ok st1" "foldR f xs st1 = Ok st'" by auto
  have "holds mm pinned vm0 (P \<union> R x) (snd st1)" by (rule Cons.prems(3) [OF _ Cons.prems(2) st1(1)]) simp
  from Cons.IH [OF st1(2) this] Cons.prems(3) show ?case by (simp add: Un_assoc)
qed simp


section \<open>Ranges, stacks and modules\<close>

definition range_pins :: "'a upcalls_scheme \<Rightarrow> 't mmtk \<Rightarrow> mem \<Rightarrow> u64 \<Rightarrow> u64 \<Rightarrow> u64 set" where
  "range_pins c mm m lo hi = {w. ambiguous c mm w \<and> (\<exists>a\<in>set (words_between lo hi). load64 m a = Ok w)}"

definition thread_pins :: "'a upcalls_scheme \<Rightarrow> 't mmtk \<Rightarrow> mem \<Rightarrow> u64 \<Rightarrow> u64 set" where
  "thread_pins c mm m tls =
     (let stack = get_stack_range c tls; rs = get_regs_range c tls in
      range_pins c mm m (stack_top stack) (stack_bottom stack) \<union>
      range_pins c mm m (regs rs) (regs rs + 8 * regs_size rs))"

definition module_pins :: "'a upcalls_scheme \<Rightarrow> mem \<Rightarrow> u64 set" where
  "module_pins c m =
     {w. \<exists>i\<in>set [0..sint (get_modules_size c) - 1]. \<exists>a. ptr_offset (get_modules c) i = Ok a \<and> load64 m a = Ok w}"

lemma mark_range_word_holds:
  assumes "pins_objects mm pinned \<and> pin_neutral mm" "object_pinning c" "holds mm pinned vm0 P (snd st)" "mark_range_word c mm depth w st = Ok st'"
  shows "holds mm pinned vm0 (P \<union> (if ambiguous c mm w then {w} else {})) (snd st')"
proof (cases "ambiguous c mm w")
  case False
  then have "st' = st"
    using assms(4) by (auto simp: mark_range_word_def ambiguous_def split: if_splits)
  then show ?thesis using False assms(3) by simp
next
  case True
  obtain pins s where pw: "pin_word c mm w st = (pins, s)" using prod.exhaust by blast
  with True assms(4) obtain s' where s': "mmtk_mark_conservative c mm depth w s = Ok s'" "st' = (pins, s')"
    by (auto simp: mark_range_word_def ambiguous_def)
  have "holds mm pinned vm0 (insert w P) s" using pin_word_holds [OF assms(1-3), of w] pw by simp
  then show ?thesis
    using True holds_frame [OF keepsD [OF mark_conservative_keeps s'(1)]] s'(2) by simp
qed

lemma mark_range_holds:
  assumes "pins_objects mm pinned \<and> pin_neutral mm" "object_pinning c" "unat hi + 8 < 2 ^ 64"
    and "holds mm pinned vm0 P s" "mmtk_mark_range c mm depth lo hi s = Ok s'"
  shows "holds mm pinned vm0 (P \<union> range_pins c mm (memory vm0) lo hi) s'"
proof -
  let ?f = "\<lambda>a st. bindR (load64 (memory (fst (snd st))) a) (\<lambda>w. mark_range_word c mm depth w st)"
  let ?R = "\<lambda>a. {w. ambiguous c mm w \<and> load64 (memory vm0) a = Ok w}"
  obtain st where st: "foldR ?f (words_between lo hi) ([], s) = Ok st" "append_pins c st = Ok s'"
    using assms(5) unfolding mmtk_mark_range_def mark_range_loop_fold [OF assms(3)] by blast
  have "holds mm pinned vm0 (P \<union> (\<Union>a\<in>set (words_between lo hi). ?R a)) (snd st)"
  proof (rule foldR_holds [OF st(1)])
    fix a P st st' assume h: "holds mm pinned vm0 P (snd st)" and run: "?f a st = Ok st'"
    then obtain w where w: "load64 (memory vm0) a = Ok w" "mark_range_word c mm depth w st = Ok st'" by (auto simp: holds_def)
    then show "holds mm pinned vm0 (P \<union> ?R a) (snd st')"
      using mark_range_word_holds [OF assms(1,2) h w(2)] by (auto simp: holds_def split: if_splits)
  qed (use assms(4) in simp)
  moreover have "(\<Union>a\<in>set (words_between lo hi). ?R a) = range_pins c mm (memory vm0) lo hi"
    by (auto simp: range_pins_def)
  ultimately show ?thesis by (simp add: append_pins_holds [OF st(2)])
qed

lemma mark_program_stack_holds:
  assumes "pins_objects mm pinned \<and> pin_neutral mm" "object_pinning c" "ranges_ok c tls"
    and "holds mm pinned vm0 P s" "mmtk_mark_program_stack c mm depth tls s = Ok s'"
  shows "holds mm pinned vm0 (P \<union> thread_pins c mm (memory vm0) tls) s'"
proof -
  define rs where "rs = get_regs_range c tls"
  let ?past = "regs rs + 8 * regs_size rs"
  note ok = assms(3) [unfolded ranges_ok_def Let_def, folded rs_def]
  have off: "ptr_offset (regs rs) (uint (regs_size rs)) = Ok ?past"
    using ptr_offset_nat [of "regs rs" "unat (regs_size rs)"] ok by simp
  have past: "unat ?past + 8 < 2 ^ 64" using ok by (simp add: unat_word_ariths)
  obtain s1 where s1: "mmtk_mark_range c mm depth (stack_top (get_stack_range c tls))
      (stack_bottom (get_stack_range c tls)) s = Ok s1" "mmtk_mark_range c mm depth (regs rs) ?past s1 = Ok s'"
    using assms(5) by (auto simp: mmtk_mark_program_stack_def Let_def off simp flip: rs_def)
  have "holds mm pinned vm0 (P \<union> range_pins c mm (memory vm0) (stack_top (get_stack_range c tls)) (stack_bottom (get_stack_range c tls))) s1"
    by (rule mark_range_holds [OF assms(1,2) _ assms(4) s1(1)]) (use ok in simp)
  from mark_range_holds [OF assms(1,2) past this s1(2)] show ?thesis
    by (simp add: thread_pins_def Let_def Un_assoc rs_def)
qed

lemma mark_modules_holds:
  assumes "pins_objects mm pinned \<and> pin_neutral mm" "object_pinning c" "holds mm pinned vm0 P s" "mmtk_mark_modules c mm depth s = Ok s'"
  shows "holds mm pinned vm0 (P \<union> module_pins c (memory vm0)) s'"
proof -
  let ?R = "\<lambda>i. {w. \<exists>a. ptr_offset (get_modules c) i = Ok a \<and> load64 (memory vm0) a = Ok w}"
  have field: "keeps frame (mmtk_mark_field c mm depth w)" for w
    unfolding mmtk_mark_field_def by (rule mark_field_keeps [OF mark_object_keeps])
  obtain st where st: "foldR (mark_module c mm depth) [0..sint (get_modules_size c) - 1] ([], s) = Ok st"
    "append_pins c st = Ok s'"
    using assms(4) unfolding mmtk_mark_modules_def by blast
  have "holds mm pinned vm0 (P \<union> (\<Union>i\<in>set [0..sint (get_modules_size c) - 1]. ?R i)) (snd st)"
  proof (rule foldR_holds [OF st(1)])
    fix i P st st' assume h: "holds mm pinned vm0 P (snd st)" and run: "mark_module c mm depth i st = Ok st'"
    then obtain a w s1 where w: "ptr_offset (get_modules c) i = Ok a" "load64 (memory vm0) a = Ok w"
      "mmtk_mark_field c mm depth w (snd (pin_word c mm w st)) = Ok s1" "snd st' = s1"
      unfolding mark_module_def case_prod_beta holds_def by (auto elim!: bindR_OkE)
    have "holds mm pinned vm0 (insert w P) s1"
      using pin_word_holds [OF assms(1,2) h, of w] holds_frame [OF keepsD [OF field w(3)]] by blast
    then show "holds mm pinned vm0 (P \<union> ?R i) (snd st')" using w by (auto simp: holds_def)
  qed (use assms(3) in simp)
  moreover have "(\<Union>i\<in>set [0..sint (get_modules_size c) - 1]. ?R i) = module_pins c (memory vm0)"
    by (auto simp: module_pins_def)
  ultimately show ?thesis by (simp add: append_pins_holds [OF st(2)])
qed

lemma mark_threads_holds:
  assumes "pins_objects mm pinned \<and> pin_neutral mm" "object_pinning c" "list_all (ranges_ok c) ts" "thread_list (memory vm0) head ts"
    and "holds mm pinned vm0 P s" "mark_threads c mm depth head s = Some (Ok s')"
  shows "holds mm pinned vm0 (P \<union> (\<Union>tls\<in>set ts. thread_pins c mm (memory vm0) tls)) s'"
  using assms(3-6)
proof (induction ts arbitrary: head P s)
  case Nil
  then show ?case by (simp add: mark_threads.simps)
next
  case (Cons th ts)
  then obtain "next" where n: "head \<noteq> 0" "load64 (memory vm0) (field MutatorThreadNode ''value'' head) = Ok th"
    "load64 (memory vm0) (field MutatorThreadNode ''next'' head) = Ok next" "thread_list (memory vm0) next ts"
    by auto
  have m: "memory (fst s) = memory vm0" using Cons.prems(3) by (simp add: holds_def)
  have node: "mark_threads c mm depth head s =
      (case bindR (mmtk_mark_program_stack c mm depth th s) (\<lambda>s.
         bindR (load64 (memory (fst s)) (field MutatorThreadNode ''next'' head)) (\<lambda>next. Ok (next, s))) of
         Inl e \<Rightarrow> Some (Err e) | Inr r \<Rightarrow> mark_threads c mm depth (fst r) (snd r))"
    using n m by (subst mark_threads.simps) simp
  obtain s1 where s1: "mmtk_mark_program_stack c mm depth th s = Ok s1"
    using Cons.prems(4) unfolding node by (cases "mmtk_mark_program_stack c mm depth th s") simp_all
  have "memory (fst s1) = memory vm0" using keepsD [OF mark_program_stack_keeps s1] m by simp
  then have rest: "mark_threads c mm depth next s1 = Some (Ok s')"
    using Cons.prems(4) n(3) unfolding node s1 by simp
  have "holds mm pinned vm0 (P \<union> thread_pins c mm (memory vm0) th) s1"
    by (rule mark_program_stack_holds [OF assms(1,2) _ Cons.prems(3) s1]) (use Cons.prems(1) in simp)
  from Cons.IH [OF _ n(4) this rest] Cons.prems(1) show ?case by (simp add: Un_assoc)
qed


lemma with_roots_closure_holds:
  assumes "with_roots_closure create f (vm, b) = Ok (vm', b')" "holds mm pinned vm0 P (vm, b)"
    and "\<And>s s'. holds mm pinned vm0 P s \<Longrightarrow> f s = Ok s' \<Longrightarrow> holds mm pinned vm0 Q s'"
  shows "holds mm pinned vm0 Q (vm', b')"
proof -
  obtain rcb rcb' where run: "f (vm, rcb) = Ok (vm', rcb')"
    using assms(1) by (auto simp: with_roots_closure_def)
  have "holds mm pinned vm0 P (vm, rcb)" using assms(2) by (simp add: holds_def)
  from assms(3) [OF this run] show ?thesis by (simp add: holds_def)
qed

text \<open>
  C15. With \<open>object_pinning\<close>, when a scan of the virtual machine's roots ends, every object that an
  aligned heap word of a thread's stack or registers or the content of a module slot refers to is
  pinned, besides all that was pinned before; no word is missed, even when
  marking an earlier one reported many roots or followed monitors.
\<close>

theorem scanned_words_pinned:
  fixes create :: "u64 list \<Rightarrow> 'f \<Rightarrow> 'f"
  assumes "pins_objects mm pinned \<and> pin_neutral mm" "object_pinning c" "list_all (ranges_ok c) ts"
    and "thread_list (memory vm) (get_mutator_threads c) ts"
    and "scan_vm_specific_roots c mm create depth (vm, b) = Some (Ok (vm', b'))"
  shows "pinned (core_state vm) \<union>
      {w \<in> (\<Union>tls\<in>set ts. thread_pins c mm (memory vm) tls) \<union> module_pins c (memory vm).
        is_mmtk_object mm (core_state vm) w}
    \<subseteq> pinned (core_state vm')"
proof -
  obtain vm1 b1 where
    threads: "scan_roots_in_all_mutator_threads c mm create depth (vm, b) = Some (Ok (vm1, b1))"
    and modules: "with_roots_closure create (mmtk_mark_modules c mm depth) (vm1, b1) = Ok (vm', b')"
    using assms(5) by (auto simp: scan_vm_specific_roots_def split: option.splits)
  obtain rcb rcb1 :: "'f roots_closure \<times> 'f bufs" where "mark_threads c mm depth (get_mutator_threads c) (vm, rcb) = Some (Ok (vm1, rcb1))"
    using threads
    by (auto simp: scan_roots_in_all_mutator_threads_def split: sum.splits option.splits prod.splits; metis)
  from mark_threads_holds [OF assms(1-4) _ this, of "{}"]
  have "holds mm pinned vm (\<Union>tls\<in>set ts. thread_pins c mm (memory vm) tls) (vm1, b1)"
    by (simp add: holds_def)
  from with_roots_closure_holds [OF modules this]
  have "holds mm pinned vm ((\<Union>tls\<in>set ts. thread_pins c mm (memory vm) tls) \<union> module_pins c (memory vm)) (vm', b')"
    using mark_modules_holds [OF assms(1,2)] by blast
  then show ?thesis by (simp add: holds_def)
qed

text \<open>A core that pins objects only: \<open>pin_object\<close> gives \<open>false\<close> on any other word and does nothing.\<close>

definition pinning_mmtk :: "core mmtk" where
  "pinning_mmtk = sample_mmtk\<lparr>pin_object := (\<lambda>a t.
     if a \<in> set (objects t) \<and> a \<notin> set (traced_log t) then (True, t\<lparr>traced_log := a # traced_log t\<rparr>) else (False, t))\<rparr>"

lemma pin_object_roots:
  "all_thread_roots c (mm\<lparr>pin_object := p\<rparr>) = all_thread_roots c mm"
  "module_roots c (mm\<lparr>pin_object := p\<rparr>) = module_roots c mm"
proof -
  have heap: "is_word_in_heap (mm\<lparr>pin_object := p\<rparr>) = is_word_in_heap mm"
    by (intro ext) (simp add: is_word_in_heap_def)
  have fld: "field_roots (mm\<lparr>pin_object := p\<rparr>) t r x = field_roots mm t r x" for t x and r :: "u64 \<Rightarrow> u64 list res"
    by (simp add: field_roots_def heap)
  have obj: "roots_of c (mm\<lparr>pin_object := p\<rparr>) m t d = roots_of c mm m t d" for m t d
    by (induction d) (simp_all add: lock_roots_def fld cong: if_cong)
  have word: "word_roots c (mm\<lparr>pin_object := p\<rparr>) = word_roots c mm"
    by (intro ext) (simp add: word_roots_def candidate_def obj heap cong: if_cong)
  have thread: "thread_roots c (mm\<lparr>pin_object := p\<rparr>) = thread_roots c mm"
    by (intro ext) (simp add: thread_roots_def range_roots_def word)
  show "all_thread_roots c (mm\<lparr>pin_object := p\<rparr>) = all_thread_roots c mm"
    by (intro ext) (simp add: all_thread_roots_def thread)
  show "module_roots c (mm\<lparr>pin_object := p\<rparr>) = module_roots c mm"
    by (intro ext) (simp add: module_roots_def obj fld)
qed

text \<open>
  The stack of the only thread refers to \<open>0x10000\<close>, its registers hold \<open>0x10040\<close>; other words and a module slot
  hold \<open>0x10041\<close>, 3 and 0, which are no objects.
\<close>

theorem scanned_words_pinned_witness:
  "\<exists>vm' b'. scan_vm_specific_roots pinned_cfg pinning_mmtk (\<lambda>p f. f @ [p]) (Suc 0) (scan_vm, no_bufs) = Some (Ok (vm', b')) \<and>
    traced_log (core_state scan_vm) = [] \<and> {0x10000, 0x10040} \<subseteq> set (traced_log (core_state vm'))"
proof -
  have contract: "pins_objects pinning_mmtk (set \<circ> traced_log) \<and> pin_neutral pinning_mmtk"
    by (auto simp: pins_objects_def pin_neutral_def pinning_mmtk_def sample_mmtk_def)
  have roots: "all_thread_roots pinned_cfg pinning_mmtk = all_thread_roots sample_cfg sample_mmtk"
    "module_roots pinned_cfg pinning_mmtk = module_roots sample_cfg sample_mmtk"
    by (simp_all add: pinning_mmtk_def pin_object_roots pinned_cfg_as)
  then have reported: "all_thread_roots pinned_cfg pinning_mmtk (memory scan_vm) (core_state scan_vm) (Suc 0) [0x5500] = Ok [0x10000, 0x10040]"
    "module_roots pinned_cfg pinning_mmtk (memory scan_vm) (core_state scan_vm) (Suc 0) = Ok [0x10000]"
    by (simp_all add: sample_thread_roots all_thread_roots_def)
  have threads: "thread_list (memory scan_vm) (get_mutator_threads pinned_cfg) [0x5500]"
    by (simp add: pinned_cfg_as sample_thread_list del: thread_list.simps)
  obtain vm' b' where run:
    "scan_vm_specific_roots pinned_cfg pinning_mmtk (\<lambda>p f. f @ [p]) (Suc 0) (scan_vm, no_bufs) = Some (Ok (vm', b'))"
    using scan_vm_roots_any_build [OF _ conjunct2 [OF contract] _ _ _ threads reported, of 4 no_bufs "\<lambda>p f. f @ [p]"]
    by (auto simp: pinned_cfg_as scan_vm_def)
  have "0x7000 \<in> set (words_between 0x7000 0x7008)" "0x7100 \<in> set (words_between 0x7100 (0x7108 :: u64))"
    by (simp_all add: words_between_def)
  moreover have "is_ptr_aligned pinned_cfg 0x10000 = Ok True" "is_ptr_aligned pinned_cfg 0x10040 = Ok True"
    by (simp_all add: is_ptr_aligned_def inverse_mask_def pinned_cfg_def sample_cfg_def)
  moreover have "get_stack_range pinned_cfg 0x5500 = get_stack_range sample_cfg 0x5500"
    "get_regs_range pinned_cfg 0x5500 = get_regs_range sample_cfg 0x5500"
    by (simp_all add: pinned_cfg_def)
  ultimately have "{0x10000, 0x10040} \<subseteq> thread_pins pinned_cfg pinning_mmtk (memory scan_vm) 0x5500"
    using sample_loads
    by (auto simp: thread_pins_def range_pins_def Let_def ambiguous_def is_word_in_heap_def pinning_mmtk_def
        sample_mmtk_def)
  moreover have "is_mmtk_object pinning_mmtk (core_state scan_vm) 0x10000" "is_mmtk_object pinning_mmtk (core_state scan_vm) 0x10040"
    by (simp_all add: pinning_mmtk_def sample_mmtk_def sample_core_def)
  ultimately show ?thesis
    using scanned_words_pinned [OF contract _ _ threads run] run
    by (auto simp: pinned_cfg_as sample_core_def)
qed

end
