(* ===== verification/Collection.thy ===== *)
theory Collection
  imports Abi
begin

text \<open>
  Stopping and resuming mutators (\<open>src/mmtk/src/collection.rs\<close>, the channels and
  \<open>scalanative_gc_init\<close> of \<open>api.rs\<close>, the set of GC threads of \<open>lib.rs\<close>). GC workers send
  requests through \<open>REQ_SENDER\<close>; a synchronizer thread receives them, makes the upcall and
  sends an answer that \<open>RES_RECEIVER\<close> keeps. The threads interleave: an operation is a
  function on the world, and a step relation lets any thread take the next step.
\<close>

section \<open>Channels and threads\<close>

datatype sync_request = Acquire u64 | Release u64

datatype sync_response = Acquired | Released

datatype thread_id = Synchronizer nat | Gc_thread nat

text \<open>
  A synchronizer thread: its channels made but not spawned, spawned but not yet running,
  waiting for a request, with a request in hand, with the answer to send, ended, or dead
  of a panic.
\<close>

datatype sync_phase = Unspawned | Starting | Waiting | Serving sync_request | Replying sync_response | Finished | Dead

text \<open>
  One call of \<open>scalanative_gc_init\<close> makes one pair of channels and one synchronizer. \<open>sender_open\<close>
  and \<open>receiver_open\<close>: the sender of the requests and the receiver of the answers exist, in
  \<open>REQ_SENDER\<close> and \<open>RES_RECEIVER\<close> or still in the initialising thread.
  \<open>accepted\<close> and \<open>served\<close> are history: the requests sent, and those whose upcall was made.
\<close>

record sync =
  queue :: "sync_request list"
  answers :: "sync_response list"
  sender_open :: bool
  receiver_open :: bool
  phase :: sync_phase
  accepted :: "sync_request list"
  served :: "sync_request list"

text \<open>
  \<open>current\<close> is the synchronizer whose sender is in \<open>REQ_SENDER\<close>, \<open>receiving\<close> the one whose
  receiver is in \<open>RES_RECEIVER\<close>; before initialisation these are ends of channels whose other
  ends are dropped (\<open>None\<close>). \<open>init_stage\<close>: how far a running \<open>scalanative_gc_init\<close> is; the
  runtime calls it from one thread at a time. \<open>gc_threads\<close> is \<open>GC_THREADS\<close>, unset until its first use.
  \<open>send_errors\<close> counts the messages printed for failed sends.
\<close>

datatype init_stage = Idle | Table_set | Sender_swapped | Receiver_swapped

record world =
  syncs :: "sync list"
  current :: "nat option"
  receiving :: "nat option"
  init_stage :: init_stage
  upcalls_ptr :: u64
  gc_threads :: "thread_id set option"
  upcalls_made :: "upcall list"
  send_errors :: nat

definition init_world :: world where
  "init_world = \<lparr>syncs = [], current = None, receiving = None, init_stage = Idle, upcalls_ptr = 0, gc_threads = None,
     upcalls_made = [], send_errors = 0\<rparr>"

definition register_gc_thread :: "thread_id \<Rightarrow> world \<Rightarrow> world" where
  "register_gc_thread tid w =
     w\<lparr>gc_threads := Some (insert tid (case gc_threads w of None \<Rightarrow> {} | Some ts \<Rightarrow> ts))\<rparr>"

definition unregister_gc_thread :: "thread_id \<Rightarrow> world \<Rightarrow> world res" where
  "unregister_gc_thread tid w =
     bindR (of_option Unwrap_failed (gc_threads w)) (\<lambda>ts. Ok (w\<lparr>gc_threads := Some (ts - {tid})\<rparr>))"

text \<open>An upcall goes through \<open>UPCALLS\<close>, which is null until initialisation.\<close>

definition make_upcall :: "upcall \<Rightarrow> world \<Rightarrow> world res" where
  "make_upcall u w = (if upcalls_ptr w = 0 then Err Segv else Ok (w\<lparr>upcalls_made := upcalls_made w @ [u]\<rparr>))"

definition set_sync :: "nat \<Rightarrow> sync \<Rightarrow> world \<Rightarrow> world" where
  "set_sync i s w = w\<lparr>syncs := (syncs w)[i := s]\<rparr>"


section \<open>Initialisation\<close>

definition new_sync :: sync where
  "new_sync = \<lparr>queue = [], answers = [], sender_open = True, receiver_open = True, phase = Unspawned,
     accepted = [], served = []\<rparr>"

definition update_sync :: "(sync \<Rightarrow> sync) \<Rightarrow> nat option \<Rightarrow> sync list \<Rightarrow> sync list" where
  "update_sync f i ss = (case i of None \<Rightarrow> ss | Some i \<Rightarrow> ss[i := f (ss ! i)])"

text \<open>
  The four effects of \<open>scalanative_gc_init\<close>, between which other threads may run: the table is
  set, \<open>REQ_SENDER\<close> is overwritten (which drops the sender it held), \<open>RES_RECEIVER\<close> is
  overwritten (which drops its receiver), the thread is spawned.
\<close>

definition gc_init_table :: "u64 \<Rightarrow> world \<Rightarrow> world" where
  "gc_init_table calls w = w\<lparr>upcalls_ptr := calls, init_stage := Table_set\<rparr>"

definition gc_init_sender :: "world \<Rightarrow> world" where
  "gc_init_sender w =
     w\<lparr>syncs := update_sync (\<lambda>s. s\<lparr>sender_open := False\<rparr>) (current w) (syncs w) @ [new_sync],
       current := Some (length (syncs w)), init_stage := Sender_swapped\<rparr>"

definition gc_init_receiver :: "world \<Rightarrow> world" where
  "gc_init_receiver w =
     w\<lparr>syncs := update_sync (\<lambda>s. s\<lparr>receiver_open := False\<rparr>) (receiving w) (syncs w),
       receiving := current w, init_stage := Receiver_swapped\<rparr>"

definition gc_init_spawn :: "world \<Rightarrow> world" where
  "gc_init_spawn w =
     w\<lparr>syncs := update_sync (\<lambda>s. s\<lparr>phase := Starting\<rparr>) (current w) (syncs w), init_stage := Idle\<rparr>"

definition scalanative_gc_init :: "u64 \<Rightarrow> world \<Rightarrow> world" where
  "scalanative_gc_init calls w = gc_init_spawn (gc_init_receiver (gc_init_sender (gc_init_table calls w)))"

lemmas gc_init_defs = gc_init_table_def gc_init_sender_def gc_init_receiver_def gc_init_spawn_def update_sync_def


section \<open>Requests\<close>

text \<open>Sending fails when the receiver is gone: never made, or dropped with a dead thread.\<close>

definition send_request :: "sync_request \<Rightarrow> world \<Rightarrow> world res" where
  "send_request r w =
     (case current w of
        None \<Rightarrow> Err Panicked
      | Some i \<Rightarrow>
          (let s = syncs w ! i in
           if phase s = Dead \<or> phase s = Finished then Err Panicked
           else Ok (set_sync i (s\<lparr>queue := queue s @ [r], accepted := accepted s @ [r]\<rparr>) w)))"

definition send_or_print :: "sync_request \<Rightarrow> world \<Rightarrow> world" where
  "send_or_print r w =
     (case send_request r w of Inl e \<Rightarrow> w\<lparr>send_errors := send_errors w + 1\<rparr> | Inr w' \<Rightarrow> w')"

text \<open>The visitor passed to \<open>stop_all_mutators\<close> is not used.\<close>

definition stop_all_mutators :: "u64 \<Rightarrow> world \<Rightarrow> world" where
  "stop_all_mutators tls w = send_or_print (Acquire tls) w"

definition resume_mutators :: "u64 \<Rightarrow> world \<Rightarrow> world" where
  "resume_mutators tls w = send_or_print (Release tls) w"


section \<open>The synchronizer thread\<close>

definition request_upcall :: "sync_request \<Rightarrow> upcall" where
  "request_upcall r = (case r of Acquire tls \<Rightarrow> Stop_all_mutators tls | Release tls \<Rightarrow> Resume_mutators tls)"

definition request_answer :: "sync_request \<Rightarrow> sync_response" where
  "request_answer r = (case r of Acquire tls \<Rightarrow> Acquired | Release tls \<Rightarrow> Released)"

text \<open>
  The next step of synchronizer \<open>i\<close>: \<open>None\<close> when it is blocked in \<open>recv\<close> or has ended. The
  loop over the requests ends when the queue is empty and the sender dropped. \<open>unwrap\<close> of
  a failed answer panics: the thread dies with its receiver, still registered.
\<close>

definition sync_step :: "nat \<Rightarrow> world \<Rightarrow> world res option" where
  "sync_step i w =
     (if length (syncs w) \<le> i then None
      else let s = syncs w ! i in
        (case phase s of
           Unspawned \<Rightarrow> None
         | Starting \<Rightarrow>
             Some (make_upcall Init_synchronizer_thread
               (set_sync i (s\<lparr>phase := Waiting\<rparr>) (register_gc_thread (Synchronizer i) w)))
         | Waiting \<Rightarrow>
             (case queue s of
                r # rs \<Rightarrow> Some (Ok (set_sync i (s\<lparr>queue := rs, phase := Serving r\<rparr>) w))
              | [] \<Rightarrow>
                  if sender_open s then None
                  else Some (unregister_gc_thread (Synchronizer i) (set_sync i (s\<lparr>phase := Finished\<rparr>) w)))
         | Serving r \<Rightarrow>
             Some (make_upcall (request_upcall r)
               (set_sync i (s\<lparr>phase := Replying (request_answer r), served := served s @ [r]\<rparr>) w))
         | Replying a \<Rightarrow>
             Some (Ok (set_sync i
               (if receiver_open s then s\<lparr>answers := answers s @ [a], phase := Waiting\<rparr>
                else s\<lparr>phase := Dead\<rparr>) w))
         | Finished \<Rightarrow> None
         | Dead \<Rightarrow> None))"


text \<open>The six steps that a synchronizer can take.\<close>

lemma sync_stepE:
  assumes "sync_step i w = Some (Ok w')" "s = syncs w ! i"
  obtains
    (start) "i < length (syncs w)" "phase s = Starting"
      "w' = set_sync i (s\<lparr>phase := Waiting\<rparr>) (register_gc_thread (Synchronizer i) w)
         \<lparr>upcalls_made := upcalls_made w @ [Init_synchronizer_thread]\<rparr>"
  | (take_request) r q where "i < length (syncs w)" "phase s = Waiting" "queue s = r # q"
      "w' = set_sync i (s\<lparr>queue := q, phase := Serving r\<rparr>) w"
  | (finish) ts where "i < length (syncs w)" "phase s = Waiting" "queue s = []" "\<not> sender_open s"
      "gc_threads w = Some ts" "w' = set_sync i (s\<lparr>phase := Finished\<rparr>) w\<lparr>gc_threads := Some (ts - {Synchronizer i})\<rparr>"
  | (serve) r where "i < length (syncs w)" "phase s = Serving r"
      "w' = set_sync i (s\<lparr>phase := Replying (request_answer r), served := served s @ [r]\<rparr>) w
         \<lparr>upcalls_made := upcalls_made w @ [request_upcall r]\<rparr>"
  | (reply) a where "i < length (syncs w)" "phase s = Replying a" "receiver_open s"
      "w' = set_sync i (s\<lparr>answers := answers s @ [a], phase := Waiting\<rparr>) w"
  | (die) a where "i < length (syncs w)" "phase s = Replying a" "\<not> receiver_open s"
      "w' = set_sync i (s\<lparr>phase := Dead\<rparr>) w"
proof -
  have i: "i < length (syncs w)" using assms(1) by (auto simp: sync_step_def split: if_splits)
  note step = assms(1) [unfolded sync_step_def Let_def, folded assms(2)]
  show thesis
  proof (cases "phase s")
    case Starting
    then show thesis
      using step i start by (auto simp: make_upcall_def register_gc_thread_def set_sync_def split: if_splits)
  next
    case Waiting
    then show thesis
      using step i finish take_request
      by (auto simp: unregister_gc_thread_def set_sync_def split: list.splits if_splits option.splits)
  next
    case (Serving r)
    then show thesis using step i serve by (auto simp: make_upcall_def set_sync_def split: if_splits)
  next
    case (Replying a)
    then show thesis using step i reply die by (auto split: if_splits)
  qed (use step in \<open>auto split: if_splits\<close>)
qed


section \<open>The other upcalls\<close>

definition block_for_gc :: "u64 \<Rightarrow> world \<Rightarrow> world res" where
  "block_for_gc tls = make_upcall (Block_for_gc tls)"

definition out_of_memory :: "u64 \<Rightarrow> alloc_error \<Rightarrow> world \<Rightarrow> world res" where
  "out_of_memory tls err_kind = make_upcall (Out_of_memory tls err_kind)"

definition schedule_finalization :: "u64 \<Rightarrow> world \<Rightarrow> world res" where
  "schedule_finalization tls = make_upcall Schedule_finalizer"

definition post_forwarding :: "u64 \<Rightarrow> world \<Rightarrow> world" where
  "post_forwarding tls w = w"


section \<open>GC threads\<close>

datatype gc_thread_context = Controller u64 | Worker u64

definition context_tls :: "gc_thread_context \<Rightarrow> gc_thread_tls" where
  "context_tls ctx = (case ctx of Controller p \<Rightarrow> for_controller p | Worker p \<Rightarrow> for_worker p)"

definition context_ptr :: "gc_thread_context \<Rightarrow> u64" where
  "context_ptr ctx = (case ctx of Controller p \<Rightarrow> p | Worker p \<Rightarrow> p)"

text \<open>
  The body of a spawned GC thread. \<open>start\<close> is mmtk-core's \<open>start_control_collector\<close> or
  \<open>start_worker\<close>: \<open>None\<close> when it runs forever, as it should. \<open>box_addr\<close> is where \<open>Box::new\<close> puts
  the record.
\<close>

definition gc_thread_main ::
    "(gc_thread_context \<Rightarrow> u64 \<Rightarrow> mem \<times> world \<Rightarrow> (mem \<times> world) option) \<Rightarrow> nat \<Rightarrow> u64 \<Rightarrow> gc_thread_context \<Rightarrow>
     mem \<times> world \<Rightarrow> (mem \<times> world) res option" where
  "gc_thread_main start n box_addr ctx = (\<lambda>(m, w).
     let w = register_gc_thread (Gc_thread n) w in
     case bindR (box_tls m box_addr (context_tls ctx)) (\<lambda>m.
          bindR (make_upcall (Init_gc_worker_thread box_addr (context_ptr ctx)) w) (\<lambda>w. Ok (m, w))) of
       Inl e \<Rightarrow> Some (Err e)
     | Inr s \<Rightarrow>
         (case start ctx (to_vwt box_addr) s of
            None \<Rightarrow> None
          | Some (m, w) \<Rightarrow> Some (bindR (unregister_gc_thread (Gc_thread n) w) (\<lambda>w. Ok (m, w)))))"


section \<open>Interleavings\<close>

text \<open>
  Any thread may take the next step: the runtime goes on initialising, a GC worker stops or
  resumes the mutators or makes another upcall, a synchronizer moves on, a GC thread
  registers, announces itself or unregisters.
\<close>

inductive step :: "world \<Rightarrow> world \<Rightarrow> bool" where
  step_table: "init_stage w = Idle \<Longrightarrow> calls \<noteq> 0 \<Longrightarrow> step w (gc_init_table calls w)"
| step_sender: "init_stage w = Table_set \<Longrightarrow> step w (gc_init_sender w)"
| step_receiver: "init_stage w = Sender_swapped \<Longrightarrow> step w (gc_init_receiver w)"
| step_spawn: "init_stage w = Receiver_swapped \<Longrightarrow> step w (gc_init_spawn w)"
| step_stop: "step w (stop_all_mutators tls w)"
| step_resume: "step w (resume_mutators tls w)"
| step_block: "block_for_gc tls w = Ok w' \<Longrightarrow> step w w'"
| step_oom: "out_of_memory tls e w = Ok w' \<Longrightarrow> step w w'"
| step_finalize: "schedule_finalization tls w = Ok w' \<Longrightarrow> step w w'"
| step_sync: "sync_step i w = Some (Ok w') \<Longrightarrow> step w w'"
| step_gc_register: "step w (register_gc_thread (Gc_thread n) w)"
| step_gc_init: "make_upcall (Init_gc_worker_thread tls ctx) w = Ok w' \<Longrightarrow> step w w'"
| step_gc_unregister: "unregister_gc_thread (Gc_thread n) w = Ok w' \<Longrightarrow> step w w'"

inductive reachable :: "world \<Rightarrow> bool" where
  reachable_init: "reachable init_world"
| reachable_step: "reachable w \<Longrightarrow> step w w' \<Longrightarrow> reachable w'"

inductive_cases stepE: "step w w'"

lemma reachable_iff: "reachable w \<longleftrightarrow> step\<^sup>*\<^sup>* init_world w"
proof
  show "reachable w \<Longrightarrow> step\<^sup>*\<^sup>* init_world w"
    by (induction rule: reachable.induct) (auto intro: rtranclp.rtrancl_into_rtrancl)
  show "step\<^sup>*\<^sup>* init_world w \<Longrightarrow> reachable w"
    by (induction rule: rtranclp_induct) (auto intro: reachable.intros)
qed

text \<open>Undisturbed, an initialisation is its four steps.\<close>

lemma gc_init_steps:
  assumes "init_stage w = Idle" "calls \<noteq> 0"
  shows "step\<^sup>*\<^sup>* w (scalanative_gc_init calls w)"
proof -
  let ?w1 = "gc_init_table calls w"
  let ?w2 = "gc_init_sender ?w1"
  let ?w3 = "gc_init_receiver ?w2"
  have "step w ?w1" by (rule step_table [OF assms])
  moreover have "step ?w1 ?w2" by (rule step_sender) (simp add: gc_init_table_def)
  moreover have "step ?w2 ?w3" by (rule step_receiver) (simp add: gc_init_sender_def)
  moreover have "step ?w3 (gc_init_spawn ?w3)" by (rule step_spawn) (simp add: gc_init_receiver_def)
  ultimately show ?thesis
    unfolding scalanative_gc_init_def by (meson converse_rtranclp_into_rtranclp rtranclp.rtrancl_refl)
qed

end
