(* ===== verification/Collection_Props.thy ===== *)
theory Collection_Props
  imports Collection "HOL-Library.Multiset" "HOL-Library.Sublist"
begin

text \<open>
  What holds of the synchronizer in every reachable interleaving: requests are served
  once and in the order they were sent, the registered synchronizers are those that
  run, an alive synchronizer serves everything that was accepted. And what does not hold:
  \<open>stop_all_mutators\<close> returns before the mutators are stopped, and a second initialisation
  kills a synchronizer that still has work.
\<close>

section \<open>The invariant\<close>

definition in_hand :: "sync_phase \<Rightarrow> sync_request list" where
  "in_hand p = (case p of Serving r \<Rightarrow> [r] | _ \<Rightarrow> [])"

definition owed :: "sync_phase \<Rightarrow> sync_response list" where
  "owed p = (case p of Replying a \<Rightarrow> [a] | _ \<Rightarrow> [])"

lemma hand_simps [simp]:
  "in_hand Unspawned = []" "owed Unspawned = []" "in_hand Starting = []" "in_hand Waiting = []" "in_hand (Serving r) = [r]" "in_hand (Replying a) = []"
  "in_hand Finished = []" "in_hand Dead = []"
  "owed Starting = []" "owed Waiting = []" "owed (Serving r) = []" "owed (Replying a) = [a]"
  "owed Finished = []" "owed Dead = []"
  by (simp_all add: in_hand_def owed_def)

definition sync_ok :: "sync \<Rightarrow> bool" where
  "sync_ok s \<longleftrightarrow>
     accepted s = served s @ in_hand (phase s) @ queue s \<and>
     (phase s \<noteq> Dead \<longrightarrow> map request_answer (served s) = answers s @ owed (phase s)) \<and>
     (sender_open s \<longrightarrow> receiver_open s) \<and>
     (phase s = Dead \<longrightarrow> \<not> receiver_open s) \<and>
     (phase s = Finished \<longrightarrow> \<not> sender_open s \<and> queue s = [])"

definition running :: "sync_phase \<Rightarrow> bool" where
  "running p \<longleftrightarrow> p \<noteq> Unspawned \<and> p \<noteq> Starting \<and> p \<noteq> Finished"

definition mutator_upcall :: "upcall \<Rightarrow> bool" where
  "mutator_upcall u = (case u of Stop_all_mutators tls \<Rightarrow> True | Resume_mutators tls \<Rightarrow> True | _ \<Rightarrow> False)"

definition mutator_upcalls :: "world \<Rightarrow> upcall list" where
  "mutator_upcalls w = filter mutator_upcall (upcalls_made w)"

definition all_served :: "world \<Rightarrow> sync_request list" where
  "all_served w = concat (map served (syncs w))"

text \<open>Which ends the globals hold, in every stage of an initialisation.\<close>

definition spawning :: "init_stage \<Rightarrow> bool" where
  "spawning st \<longleftrightarrow> st = Sender_swapped \<or> st = Receiver_swapped"

definition globals_ok :: "world \<Rightarrow> bool" where
  "globals_ok w \<longleftrightarrow>
     (let n = length (syncs w) in
      current w = (if n = 0 then None else Some (n - 1)) \<and>
      receiving w = (if init_stage w = Sender_swapped then (if n = 1 then None else Some (n - 2)) else current w) \<and>
      (\<forall>i<n. sender_open (syncs w ! i) = (Suc i = n)) \<and>
      (\<forall>i<n. receiver_open (syncs w ! i) = (receiving w = Some i \<or> Suc i = n)) \<and>
      (\<forall>i<n. (phase (syncs w ! i) = Unspawned) = (Suc i = n \<and> spawning (init_stage w))) \<and>
      (spawning (init_stage w) \<longrightarrow> n \<noteq> 0) \<and>
      (syncs w \<noteq> [] \<or> init_stage w \<noteq> Idle \<longrightarrow> upcalls_ptr w \<noteq> 0))"

definition registered_ok :: "world \<Rightarrow> bool" where
  "registered_ok w \<longleftrightarrow> (\<forall>i. (\<exists>ts. gc_threads w = Some ts \<and> Synchronizer i \<in> ts) =
     (i < length (syncs w) \<and> running (phase (syncs w ! i))))"

definition upcalls_ok :: "world \<Rightarrow> bool" where
  "upcalls_ok w \<longleftrightarrow>
     mset (mutator_upcalls w) = mset (map request_upcall (all_served w)) \<and>
     (length (syncs w) \<le> 1 \<longrightarrow> mutator_upcalls w = map request_upcall (all_served w))"

definition world_ok :: "world \<Rightarrow> bool" where
  "world_ok w \<longleftrightarrow> (\<forall>s\<in>set (syncs w). sync_ok s) \<and> globals_ok w \<and> registered_ok w \<and> upcalls_ok w"

lemmas world_defs = world_ok_def globals_ok_def registered_ok_def upcalls_ok_def mutator_upcalls_def all_served_def

lemma mutator_upcall_simps [simp]:
  "mutator_upcall (request_upcall r)" "\<not> mutator_upcall Init_synchronizer_thread"
  "\<not> mutator_upcall (Block_for_gc tls)" "\<not> mutator_upcall (Out_of_memory tls e)" "\<not> mutator_upcall Schedule_finalizer"
  "\<not> mutator_upcall (Init_gc_worker_thread a p)"
  by (simp_all add: mutator_upcall_def request_upcall_def split: sync_request.splits)

lemma init_world_ok: "world_ok init_world"
  by (simp add: world_defs init_world_def spawning_def)

lemma world_ok_upcall:
  "world_ok w \<Longrightarrow> \<not> mutator_upcall u \<Longrightarrow> world_ok (w\<lparr>upcalls_made := upcalls_made w @ [u]\<rparr>)"
proof -
  assume w: "world_ok w" "\<not> mutator_upcall u"
  let ?w = "w\<lparr>upcalls_made := upcalls_made w @ [u]\<rparr>"
  have "globals_ok ?w = globals_ok w" unfolding globals_ok_def by simp
  moreover have "registered_ok ?w = registered_ok w" unfolding registered_ok_def by simp
  moreover have "upcalls_ok ?w = upcalls_ok w"
    using w(2) unfolding upcalls_ok_def mutator_upcalls_def all_served_def by simp
  ultimately show "world_ok ?w" using w(1) by (simp add: world_ok_def)
qed

lemma make_upcall_ok:
  assumes "world_ok w" "make_upcall u w = Ok w'" "\<not> mutator_upcall u"
  shows "world_ok w'"
  using assms world_ok_upcall by (auto simp: make_upcall_def split: if_splits)

text \<open>
  A step that changes one synchronizer and makes the upcalls \<open>us\<close> keeps the invariant of the
  world when it keeps that synchronizer's, and the upcalls are those of the requests it
  serves.
\<close>

lemma set_sync_ok:
  assumes "world_ok w" "i < length (syncs w)" "sync_ok s'" "sender_open s' = sender_open (syncs w ! i)"
    and "receiver_open s' = receiver_open (syncs w ! i)" "phase s' = Unspawned \<longleftrightarrow> phase (syncs w ! i) = Unspawned"
    and "served s' = served (syncs w ! i) @ rs"
    and "upcalls_made w' = upcalls_made w @ us" "filter mutator_upcall us = map request_upcall rs"
    and "syncs w' = (syncs w)[i := s']" "current w' = current w" "upcalls_ptr w' = upcalls_ptr w"
    and "receiving w' = receiving w" "init_stage w' = init_stage w"
    and "\<And>j. (\<exists>ts. gc_threads w' = Some ts \<and> Synchronizer j \<in> ts) =
      (if j = i then running (phase s') else \<exists>ts. gc_threads w = Some ts \<and> Synchronizer j \<in> ts)"
  shows "world_ok w'"
proof -
  let ?xs = "take i (syncs w)" and ?ys = "drop (Suc i) (syncs w)"
  have old: "all_served w = concat (map served ?xs) @ served (syncs w ! i) @ concat (map served ?ys)"
    by (simp add: all_served_def) (metis id_take_nth_drop [OF assms(2)] concat.simps(2) concat_append list.simps(9) map_append)
  have new: "all_served w' = concat (map served ?xs) @ (served (syncs w ! i) @ rs) @ concat (map served ?ys)"
    by (simp add: all_served_def assms(2,7,10) upd_conv_take_nth_drop)
  have calls: "mutator_upcalls w' = mutator_upcalls w @ map request_upcall rs"
    by (simp add: mutator_upcalls_def assms(8,9))
  have "?ys = []" if "length (syncs w) \<le> 1" using that assms(2) by simp
  then have "upcalls_ok w'"
    using assms(1,10) old new calls by (auto simp: world_ok_def upcalls_ok_def)
  moreover have "globals_ok w'"
    using assms(1,2,4-6,10-14) by (auto simp: world_ok_def globals_ok_def Let_def nth_list_update)
  moreover have "registered_ok w'"
    using assms(1,2,10,15) by (auto simp: world_ok_def registered_ok_def nth_list_update)
  moreover have "\<forall>s\<in>set (syncs w'). sync_ok s"
    using assms(1,3,10) set_update_subset_insert [of "syncs w" i s'] by (auto simp: world_ok_def)
  ultimately show ?thesis by (simp add: world_ok_def)
qed

lemma sync_of: "world_ok w \<Longrightarrow> i < length (syncs w) \<Longrightarrow> sync_ok (syncs w ! i)"
  by (simp add: world_ok_def)

lemma registered_iff:
  "world_ok w \<Longrightarrow> (\<exists>ts. gc_threads w = Some ts \<and> Synchronizer j \<in> ts) =
    (j < length (syncs w) \<and> running (phase (syncs w ! j)))"
  by (simp add: world_ok_def registered_ok_def)

text \<open>The synchronizer that receives requests can be sent to, and answers are received.\<close>

lemma current_sync:
  assumes "world_ok w" "current w = Some i"
  shows "i < length (syncs w)" "Suc i = length (syncs w)" "sender_open (syncs w ! i)" "receiver_open (syncs w ! i)"
    "upcalls_ptr w \<noteq> 0" "phase (syncs w ! i) \<noteq> Dead" "phase (syncs w ! i) \<noteq> Finished"
proof -
  show i: "i < length (syncs w)" "Suc i = length (syncs w)" "sender_open (syncs w ! i)" "upcalls_ptr w \<noteq> 0"
    using assms by (auto simp: world_ok_def globals_ok_def Let_def split: if_splits)
  show "receiver_open (syncs w ! i)" "phase (syncs w ! i) \<noteq> Dead" "phase (syncs w ! i) \<noteq> Finished"
    using i(3) sync_of [OF assms(1) i(1)] by (auto simp: sync_ok_def)
qed

lemma send_ok:
  assumes ok: "world_ok w" and "send_request r w = Ok w'"
  shows "world_ok w'"
proof -
  obtain i where i: "current w = Some i"
    and p: "phase (syncs w ! i) \<noteq> Dead" "phase (syncs w ! i) \<noteq> Finished"
    and w': "w' = set_sync i ((syncs w ! i)\<lparr>queue := queue (syncs w ! i) @ [r], accepted := accepted (syncs w ! i) @ [r]\<rparr>) w"
    using assms(2) by (auto simp: send_request_def Let_def split: option.splits if_splits)
  show ?thesis
    using sync_of [OF ok, of i] registered_iff [OF ok, of i] p current_sync(1) [OF ok i]
    by (intro set_sync_ok [OF ok, where i = i and us = "[]" and rs = "[]"])
       (auto simp: w' set_sync_def sync_ok_def)
qed

lemma world_ok_errors: "world_ok (w\<lparr>send_errors := n\<rparr>) = world_ok w"
  unfolding world_defs by simp

lemma send_or_print_ok:
  assumes "world_ok w"
  shows "world_ok (send_or_print r w)"
proof (cases "send_request r w")
  case (Inl e)
  with assms show ?thesis by (simp add: send_or_print_def world_ok_errors)
next
  case (Inr w')
  then show ?thesis using send_ok [OF assms Inr] by (simp add: send_or_print_def)
qed

lemma sync_step_ok:
  assumes ok: "world_ok w" and step: "sync_step i w = Some (Ok w')"
  shows "world_ok w'"
  using step refl
proof (cases rule: sync_stepE)
  case start
  with sync_of [OF ok start(1)] show ?thesis
    by (intro set_sync_ok [OF ok start(1), where s' = "(syncs w ! i)\<lparr>phase := Waiting\<rparr>"
          and us = "[Init_synchronizer_thread]" and rs = "[]"])
       (auto simp: sync_ok_def set_sync_def register_gc_thread_def running_def split: option.splits)
next
  case (take_request r q)
  with sync_of [OF ok take_request(1)] registered_iff [OF ok, of i] show ?thesis
    by (intro set_sync_ok [OF ok take_request(1), where s' = "(syncs w ! i)\<lparr>queue := q, phase := Serving r\<rparr>"
          and us = "[]" and rs = "[]"])
       (auto simp: sync_ok_def set_sync_def running_def)
next
  case (finish ts)
  with sync_of [OF ok finish(1)] show ?thesis
    by (intro set_sync_ok [OF ok finish(1), where s' = "(syncs w ! i)\<lparr>phase := Finished\<rparr>" and us = "[]" and rs = "[]"])
       (auto simp: sync_ok_def set_sync_def running_def)
next
  case (serve r)
  with sync_of [OF ok serve(1)] registered_iff [OF ok, of i] show ?thesis
    by (intro set_sync_ok [OF ok serve(1), where us = "[request_upcall r]" and rs = "[r]"
          and s' = "(syncs w ! i)\<lparr>phase := Replying (request_answer r), served := served (syncs w ! i) @ [r]\<rparr>"])
       (auto simp: sync_ok_def set_sync_def running_def)
next
  case (reply a)
  with sync_of [OF ok reply(1)] registered_iff [OF ok, of i] show ?thesis
    by (intro set_sync_ok [OF ok reply(1), where us = "[]" and rs = "[]"
          and s' = "(syncs w ! i)\<lparr>answers := answers (syncs w ! i) @ [a], phase := Waiting\<rparr>"])
       (auto simp: sync_ok_def set_sync_def running_def)
next
  case (die a)
  with sync_of [OF ok die(1)] registered_iff [OF ok, of i] show ?thesis
    by (intro set_sync_ok [OF ok die(1), where s' = "(syncs w ! i)\<lparr>phase := Dead\<rparr>" and us = "[]" and rs = "[]"])
       (auto simp: sync_ok_def set_sync_def running_def)
qed

text \<open>
  The stages of an initialisation change no history: the invariant is kept when every
  synchronizer keeps its own and nobody starts or stops running.
\<close>

lemma stage_ok:
  assumes "world_ok w" "globals_ok w'" "\<forall>s\<in>set (syncs w'). sync_ok s"
    and "gc_threads w' = gc_threads w" "upcalls_made w' = upcalls_made w"
    and "length (syncs w) \<le> length (syncs w')"
    and "\<And>i. i < length (syncs w) \<Longrightarrow> served (syncs w' ! i) = served (syncs w ! i) \<and>
      running (phase (syncs w' ! i)) = running (phase (syncs w ! i))"
    and "\<And>i. length (syncs w) \<le> i \<Longrightarrow> i < length (syncs w') \<Longrightarrow>
      served (syncs w' ! i) = [] \<and> \<not> running (phase (syncs w' ! i))"
  shows "world_ok w'"
proof -
  have take: "map served (take (length (syncs w)) (syncs w')) = map served (syncs w)"
    using assms(6,7) by (intro nth_equalityI) simp_all
  have drop: "s = []" if "s \<in> set (map served (drop (length (syncs w)) (syncs w')))" for s
    using that assms(8) by (auto simp: in_set_conv_nth)
  have "all_served w' = concat (map served (take (length (syncs w)) (syncs w')) @
      map served (drop (length (syncs w)) (syncs w')))"
    unfolding all_served_def map_append [symmetric] by simp
  also have "\<dots> = all_served w"
    using drop unfolding take all_served_def by (simp add: concat_eq_Nil_conv)
  finally have served: "all_served w' = all_served w" .
  have "(i < length (syncs w') \<and> running (phase (syncs w' ! i))) = (i < length (syncs w) \<and> running (phase (syncs w ! i)))" for i
    using assms(6) assms(7,8) [of i] by (cases "i < length (syncs w)") auto
  then have "registered_ok w'"
    using assms(1,4) by (simp add: world_ok_def registered_ok_def)
  moreover have "upcalls_ok w'"
    using assms(1,5,6) served by (auto simp: world_ok_def upcalls_ok_def mutator_upcalls_def)
  ultimately show ?thesis using assms(2,3) by (simp add: world_ok_def)
qed

lemma gc_init_table_ok: "world_ok w \<Longrightarrow> init_stage w = Idle \<Longrightarrow> calls \<noteq> 0 \<Longrightarrow> world_ok (gc_init_table calls w)"
  by (rule stage_ok) (auto simp: world_ok_def globals_ok_def Let_def gc_init_table_def spawning_def)

lemma update_sync_ok:
  assumes "\<forall>s\<in>set ss. sync_ok s" "\<And>j. i = Some j \<Longrightarrow> j < length ss \<Longrightarrow> sync_ok (f (ss ! j))"
  shows "\<forall>s\<in>set (update_sync f i ss). sync_ok s"
proof (cases i)
  case (Some j)
  show ?thesis
  proof (cases "j < length ss")
    case True
    then show ?thesis
      using assms set_update_subset_insert [of ss j "f (ss ! j)"] Some by (auto simp: update_sync_def)
  qed (use assms Some in \<open>simp add: update_sync_def list_update_beyond\<close>)
qed (use assms in \<open>simp add: update_sync_def\<close>)

lemma length_update_sync [simp]: "length (update_sync f i ss) = length ss"
  by (simp add: update_sync_def split: option.splits)

lemma nth_update_sync: "j < length ss \<Longrightarrow> update_sync f i ss ! j = (if i = Some j then f (ss ! j) else ss ! j)"
  by (auto simp: update_sync_def nth_list_update split: option.splits)

lemma globals:
  assumes "world_ok w"
  shows "current w = (if length (syncs w) = 0 then None else Some (length (syncs w) - 1))"
    "receiving w = (if init_stage w = Sender_swapped
      then (if length (syncs w) = 1 then None else Some (length (syncs w) - 2)) else current w)"
    "i < length (syncs w) \<Longrightarrow> sender_open (syncs w ! i) = (Suc i = length (syncs w))"
    "i < length (syncs w) \<Longrightarrow> receiver_open (syncs w ! i) = (receiving w = Some i \<or> Suc i = length (syncs w))"
    "i < length (syncs w) \<Longrightarrow> (phase (syncs w ! i) = Unspawned) = (Suc i = length (syncs w) \<and> spawning (init_stage w))"
    "spawning (init_stage w) \<Longrightarrow> syncs w \<noteq> []" "syncs w \<noteq> [] \<or> init_stage w \<noteq> Idle \<Longrightarrow> upcalls_ptr w \<noteq> 0"
  using assms unfolding world_ok_def globals_ok_def Let_def by blast+

lemma globalsI:
  assumes "current w = (if length (syncs w) = 0 then None else Some (length (syncs w) - 1))"
    "receiving w = (if init_stage w = Sender_swapped
      then (if length (syncs w) = 1 then None else Some (length (syncs w) - 2)) else current w)"
    "\<And>i. i < length (syncs w) \<Longrightarrow> sender_open (syncs w ! i) = (Suc i = length (syncs w)) \<and>
      receiver_open (syncs w ! i) = (receiving w = Some i \<or> Suc i = length (syncs w)) \<and>
      (phase (syncs w ! i) = Unspawned) = (Suc i = length (syncs w) \<and> spawning (init_stage w))"
    "spawning (init_stage w) \<Longrightarrow> syncs w \<noteq> []" "upcalls_ptr w \<noteq> 0"
  shows "globals_ok w"
  using assms unfolding globals_ok_def Let_def length_0_conv [symmetric] by blast

lemma gc_init_sender_ok:
  assumes ok: "world_ok w" and st: "init_stage w = Table_set"
  shows "world_ok (gc_init_sender w)"
proof (rule stage_ok [OF ok])
  have "\<forall>s\<in>set (update_sync (\<lambda>s. s\<lparr>sender_open := False\<rparr>) (current w) (syncs w)). sync_ok s"
    by (rule update_sync_ok) (use ok sync_of [OF ok] in \<open>auto simp: world_ok_def sync_ok_def\<close>)
  moreover have "sync_ok new_sync" by (simp add: sync_ok_def new_sync_def)
  ultimately show "\<forall>s\<in>set (syncs (gc_init_sender w)). sync_ok s" by (auto simp: gc_init_sender_def)
  note g = globals [OF ok]
  show "globals_ok (gc_init_sender w)"
  proof (rule globalsI)
    fix i assume "i < length (syncs (gc_init_sender w))"
    then consider "i < length (syncs w)" | "i = length (syncs w)" by (fastforce simp: gc_init_sender_def)
    then show "sender_open (syncs (gc_init_sender w) ! i) = (Suc i = length (syncs (gc_init_sender w))) \<and>
        receiver_open (syncs (gc_init_sender w) ! i) =
          (receiving (gc_init_sender w) = Some i \<or> Suc i = length (syncs (gc_init_sender w))) \<and>
        (phase (syncs (gc_init_sender w) ! i) = Unspawned) =
          (Suc i = length (syncs (gc_init_sender w)) \<and> spawning (init_stage (gc_init_sender w)))"
    proof cases
      case 1
      then show ?thesis
        using st g(1,2) g(3,4,5) [OF 1] by (auto simp: gc_init_sender_def nth_append nth_update_sync spawning_def)
    next
      case 2
      then show ?thesis by (simp add: gc_init_sender_def nth_append new_sync_def spawning_def)
    qed
  qed (use st g in \<open>auto simp: gc_init_sender_def\<close>)
qed (auto simp: gc_init_sender_def nth_append nth_update_sync new_sync_def running_def)

lemma gc_init_receiver_ok:
  assumes ok: "world_ok w" and st: "init_stage w = Sender_swapped"
  shows "world_ok (gc_init_receiver w)"
proof (rule stage_ok [OF ok])
  have old: "\<not> sender_open (syncs w ! j)" if "receiving w = Some j" "j < length (syncs w)" for j
    using st that globals(2,3) [OF ok] by (auto split: if_splits)
  have "\<forall>s\<in>set (update_sync (\<lambda>s. s\<lparr>receiver_open := False\<rparr>) (receiving w) (syncs w)). sync_ok s"
  proof (rule update_sync_ok)
    fix j assume "receiving w = Some j" "j < length (syncs w)"
    then show "sync_ok ((syncs w ! j)\<lparr>receiver_open := False\<rparr>)"
      using sync_of [OF ok] old by (simp add: sync_ok_def)
  qed (use ok in \<open>simp add: world_ok_def\<close>)
  then show "\<forall>s\<in>set (syncs (gc_init_receiver w)). sync_ok s" by (simp add: gc_init_receiver_def)
  have "syncs w \<noteq> []" using globals(6) [OF ok] st by (simp add: spawning_def)
  then obtain n where n: "length (syncs w) = Suc n" by (cases "syncs w") auto
  note g = globals [OF ok, unfolded n, simplified]
  show "globals_ok (gc_init_receiver w)"
  proof (rule globalsI)
    fix i assume "i < length (syncs (gc_init_receiver w))"
    then have i: "i < length (syncs w)" by (simp add: gc_init_receiver_def)
    show "sender_open (syncs (gc_init_receiver w) ! i) = (Suc i = length (syncs (gc_init_receiver w))) \<and>
        receiver_open (syncs (gc_init_receiver w) ! i) =
          (receiving (gc_init_receiver w) = Some i \<or> Suc i = length (syncs (gc_init_receiver w))) \<and>
        (phase (syncs (gc_init_receiver w) ! i) = Unspawned) =
          (Suc i = length (syncs (gc_init_receiver w)) \<and> spawning (init_stage (gc_init_receiver w)))"
      using st n i g(1,2) g(3,4,5) [of i] by (cases "i = n") (simp_all add: gc_init_receiver_def nth_update_sync spawning_def split: if_splits)
  qed (use st n g in \<open>auto simp: gc_init_receiver_def spawning_def simp flip: length_0_conv\<close>)
qed (auto simp: gc_init_receiver_def nth_update_sync)

lemma gc_init_spawn_ok:
  assumes ok: "world_ok w" and st: "init_stage w = Receiver_swapped"
  shows "world_ok (gc_init_spawn w)"
proof (rule stage_ok [OF ok])
  have new: "phase (syncs w ! j) = Unspawned" if "current w = Some j" "j < length (syncs w)" for j
    using st that globals(1,5) [OF ok] by (auto simp: spawning_def split: if_splits)
  have "\<forall>s\<in>set (update_sync (\<lambda>s. s\<lparr>phase := Starting\<rparr>) (current w) (syncs w)). sync_ok s"
  proof (rule update_sync_ok)
    fix j assume "current w = Some j" "j < length (syncs w)"
    then show "sync_ok ((syncs w ! j)\<lparr>phase := Starting\<rparr>)"
      using sync_of [OF ok, of j] new by (simp add: sync_ok_def)
  qed (use ok in \<open>simp add: world_ok_def\<close>)
  then show "\<forall>s\<in>set (syncs (gc_init_spawn w)). sync_ok s" by (simp add: gc_init_spawn_def)
  have "syncs w \<noteq> []" using globals(6) [OF ok] st by (simp add: spawning_def)
  then obtain n where n: "length (syncs w) = Suc n" by (cases "syncs w") auto
  note g = globals [OF ok, unfolded n, simplified]
  show "globals_ok (gc_init_spawn w)"
  proof (rule globalsI)
    fix i assume "i < length (syncs (gc_init_spawn w))"
    then have i: "i < length (syncs w)" by (simp add: gc_init_spawn_def)
    show "sender_open (syncs (gc_init_spawn w) ! i) = (Suc i = length (syncs (gc_init_spawn w))) \<and>
        receiver_open (syncs (gc_init_spawn w) ! i) =
          (receiving (gc_init_spawn w) = Some i \<or> Suc i = length (syncs (gc_init_spawn w))) \<and>
        (phase (syncs (gc_init_spawn w) ! i) = Unspawned) =
          (Suc i = length (syncs (gc_init_spawn w)) \<and> spawning (init_stage (gc_init_spawn w)))"
      using st n i g(1,2) g(3,4,5) [of i] by (cases "i = n") (simp_all add: gc_init_spawn_def nth_update_sync spawning_def split: if_splits)
  qed (use st n g in \<open>auto simp: gc_init_spawn_def spawning_def simp flip: length_0_conv\<close>)
  fix i assume "i < length (syncs w)"
  then show "served (syncs (gc_init_spawn w) ! i) = served (syncs w ! i) \<and>
      running (phase (syncs (gc_init_spawn w) ! i)) = running (phase (syncs w ! i))"
    using new by (auto simp: gc_init_spawn_def nth_update_sync running_def)
qed (auto simp: gc_init_spawn_def)

text \<open>The registrations of GC threads do not touch those of the synchronizers.\<close>

lemma gc_thread_registration:
  assumes "w' = register_gc_thread (Gc_thread n) w \<or> unregister_gc_thread (Gc_thread n) w = Ok w'"
  shows "w' = w\<lparr>gc_threads := gc_threads w'\<rparr>"
    "(\<exists>ts. gc_threads w' = Some ts \<and> Synchronizer j \<in> ts) = (\<exists>ts. gc_threads w = Some ts \<and> Synchronizer j \<in> ts)"
  using assms by (auto simp: register_gc_thread_def unregister_gc_thread_def split: option.splits)

lemma gc_thread_registration_ok:
  assumes "w' = register_gc_thread (Gc_thread n) w \<or> unregister_gc_thread (Gc_thread n) w = Ok w'" "world_ok w"
  shows "world_ok w'"
proof -
  note same = gc_thread_registration [OF assms(1)]
  have syncs: "syncs w' = syncs w" by (subst same(1)) simp
  have "registered_ok w'"
    using assms(2) unfolding world_ok_def registered_ok_def same(2) syncs by blast
  moreover have "globals_ok w' = globals_ok w" "upcalls_ok w' = upcalls_ok w"
    unfolding globals_ok_def upcalls_ok_def mutator_upcalls_def all_served_def by (subst same(1), simp)+
  ultimately show ?thesis using assms(2) syncs by (simp add: world_ok_def)
qed

lemma step_ok: "step w w' \<Longrightarrow> world_ok w \<Longrightarrow> world_ok w'"
  by (erule stepE)
     (auto simp: stop_all_mutators_def resume_mutators_def block_for_gc_def out_of_memory_def
       schedule_finalization_def intro: gc_init_table_ok gc_init_sender_ok gc_init_receiver_ok
       gc_init_spawn_ok send_or_print_ok sync_step_ok gc_thread_registration_ok elim: make_upcall_ok)

interpretation synchronizers: inductive_invariant init_world step world_ok
  by unfold_locales (auto intro: init_world_ok step_ok)

lemma reachable_ok: "reachable w \<Longrightarrow> world_ok w"
  unfolding reachable_iff by (rule synchronizers.inv_reached)


section \<open>Safety\<close>

text \<open>
  C7. In every interleaving each request is upcalled at most once: the stop and resume
  upcalls made are, as a multiset, those of the served requests of all synchronizers. A
  synchronizer serves its requests in the order they were accepted, the rest is in its
  hand or queued; so after one initialisation the upcalls are a prefix of the requests.
\<close>

theorem requests_served_in_order:
  assumes "reachable w"
  shows "mset (mutator_upcalls w) = mset (map request_upcall (concat (map served (syncs w)))) \<and>
    (\<forall>s\<in>set (syncs w). accepted s = served s @ in_hand (phase s) @ queue s) \<and>
    (\<forall>s. syncs w = [s] \<longrightarrow> prefix (mutator_upcalls w) (map request_upcall (accepted s)))"
  using reachable_ok [OF assms] by (auto simp: world_ok_def upcalls_ok_def sync_ok_def all_served_def)

definition sample_world :: world where
  "sample_world = stop_all_mutators 7 (scalanative_gc_init 0x100 init_world)"

lemma sample_reachable: "reachable sample_world"
proof -
  have "step\<^sup>*\<^sup>* init_world (scalanative_gc_init 0x100 init_world)"
    by (rule gc_init_steps) (simp_all add: init_world_def)
  then show ?thesis
    unfolding sample_world_def by (intro reachable_step [OF _ step_stop]) (simp add: reachable_iff)
qed

lemma sample_world_simps:
  "syncs sample_world = [new_sync\<lparr>phase := Starting, queue := [Acquire 7], accepted := [Acquire 7]\<rparr>]" "current sample_world = Some 0"
  "receiving sample_world = Some 0" "init_stage sample_world = Idle"
  "upcalls_ptr sample_world = 0x100" "upcalls_made sample_world = []" "gc_threads sample_world = None"
  by (simp_all add: sample_world_def stop_all_mutators_def scalanative_gc_init_def gc_init_defs init_world_def send_or_print_def
      send_request_def Let_def new_sync_def set_sync_def)

theorem requests_served_in_order_witness:
  "reachable sample_world \<and>
   mset (mutator_upcalls sample_world) = mset (map request_upcall (concat (map served (syncs sample_world)))) \<and>
   prefix (mutator_upcalls sample_world) (map request_upcall [Acquire 7])"
  using requests_served_in_order [OF sample_reachable] sample_reachable by (simp add: sample_world_simps)

text \<open>
  C31. \<open>GC_THREADS\<close> holds exactly the synchronizers that have started and not come to the end
  of their loop.
\<close>

theorem synchronizers_registered:
  assumes "reachable w"
  shows "(\<exists>ts. gc_threads w = Some ts \<and> Synchronizer i \<in> ts) \<longleftrightarrow>
    i < length (syncs w) \<and> phase (syncs w ! i) \<notin> {Unspawned, Starting, Finished}"
  using registered_iff [OF reachable_ok [OF assms]] by (simp add: running_def)

theorem synchronizers_registered_witness:
  "(\<exists>ts. gc_threads sample_world = Some ts \<and> Synchronizer 0 \<in> ts) \<longleftrightarrow>
    0 < length (syncs sample_world) \<and> phase (syncs sample_world ! 0) \<notin> {Unspawned, Starting, Finished}"
  by (rule synchronizers_registered [OF sample_reachable])

text \<open>
  C28. \<open>stop_all_mutators\<close> returns at once: it only queues the request, behind all others. No
  upcall has been made for it and no answer awaited when it returns, so the caller goes
  on while mutators run. Before the first initialisation the request is dropped and an
  error printed; afterwards none is refused.
\<close>

theorem stop_returns_before_mutators_stop:
  assumes "reachable w"
  shows "upcalls_made (stop_all_mutators tls w) = upcalls_made w \<and>
    (case current w of
       None \<Rightarrow> stop_all_mutators tls w = w\<lparr>send_errors := send_errors w + 1\<rparr>
     | Some i \<Rightarrow> syncs (stop_all_mutators tls w) = (syncs w)[i := (syncs w ! i)
           \<lparr>queue := queue (syncs w ! i) @ [Acquire tls], accepted := accepted (syncs w ! i) @ [Acquire tls]\<rparr>])"
proof (cases "current w")
  case None
  then show ?thesis by (simp add: stop_all_mutators_def send_or_print_def send_request_def)
next
  case (Some i)
  have ok: "world_ok w" by (rule reachable_ok [OF assms])
  then show ?thesis
    using Some current_sync(6,7) [OF ok Some]
    by (simp add: stop_all_mutators_def send_or_print_def send_request_def Let_def set_sync_def)
qed

theorem stop_returns_before_mutators_stop_witness:
  "upcalls_made (stop_all_mutators 9 sample_world) = upcalls_made sample_world \<and>
    (case current sample_world of
       None \<Rightarrow> stop_all_mutators 9 sample_world = sample_world\<lparr>send_errors := send_errors sample_world + 1\<rparr>
     | Some i \<Rightarrow> syncs (stop_all_mutators 9 sample_world) = (syncs sample_world)[i := (syncs sample_world ! i)
           \<lparr>queue := queue (syncs sample_world ! i) @ [Acquire 9],
            accepted := accepted (syncs sample_world ! i) @ [Acquire 9]\<rparr>])"
  by (rule stop_returns_before_mutators_stop [OF sample_reachable])


section \<open>Progress\<close>

text \<open>A synchronizer running alone for \<open>n\<close> steps, or until it blocks.\<close>

fun sync_run :: "nat \<Rightarrow> nat \<Rightarrow> world \<Rightarrow> world res" where
  "sync_run 0 i w = Ok w"
| "sync_run (Suc n) i w = (case sync_step i w of None \<Rightarrow> Ok w | Some r \<Rightarrow> bindR r (sync_run n i))"

lemma sync_run_add: "sync_run n i w = Ok w' \<Longrightarrow> sync_run k i w' = Ok w'' \<Longrightarrow> sync_run (n + k) i w = Ok w''"
proof (induction n arbitrary: w)
  case (Suc n)
  show ?case
  proof (cases "sync_step i w")
    case None
    then have "w' = w" using Suc.prems by simp
    have "sync_run m i w = Ok w" for m using None by (cases m) simp_all
    then show ?thesis using Suc.prems(2) \<open>w' = w\<close> by simp
  qed (use Suc in auto)
qed simp

lemma serve_one:
  assumes "i < length (syncs w)" "phase (syncs w ! i) = Waiting" "queue (syncs w ! i) = r # rs"
    and "receiver_open (syncs w ! i)" "upcalls_ptr w \<noteq> 0"
  shows "sync_run 3 i w = Ok (w\<lparr>upcalls_made := upcalls_made w @ [request_upcall r],
      syncs := (syncs w)[i := (syncs w ! i)\<lparr>queue := rs, served := served (syncs w ! i) @ [r],
        answers := answers (syncs w ! i) @ [request_answer r], phase := Waiting\<rparr>]\<rparr>)"
  using assms by (simp add: numeral_3_eq_3 sync_step_def Let_def set_sync_def make_upcall_def)

lemma serve_all:
  assumes "i < length (syncs w)" "phase (syncs w ! i) = Waiting" "receiver_open (syncs w ! i)" "upcalls_ptr w \<noteq> 0"
    and "queue (syncs w ! i) = rs"
  shows "\<exists>w'. sync_run (3 * length rs) i w = Ok w' \<and> current w' = current w \<and> queue (syncs w' ! i) = [] \<and> phase (syncs w' ! i) = Waiting \<and>
    upcalls_made w' = upcalls_made w @ map request_upcall rs \<and> accepted (syncs w' ! i) = accepted (syncs w ! i)"
  using assms
proof (induction rs arbitrary: w)
  case Nil
  then show ?case by auto
next
  case (Cons r rs)
  let ?w = "w\<lparr>upcalls_made := upcalls_made w @ [request_upcall r],
      syncs := (syncs w)[i := (syncs w ! i)\<lparr>queue := rs, served := served (syncs w ! i) @ [r],
        answers := answers (syncs w ! i) @ [request_answer r], phase := Waiting\<rparr>]\<rparr>"
  have "\<exists>w'. sync_run (3 * length rs) i ?w = Ok w' \<and> current w' = current ?w \<and> queue (syncs w' ! i) = [] \<and> phase (syncs w' ! i) = Waiting \<and>
    upcalls_made w' = upcalls_made ?w @ map request_upcall rs \<and> accepted (syncs w' ! i) = accepted (syncs ?w ! i)"
    by (rule Cons.IH) (use Cons.prems in \<open>simp_all add: set_sync_def\<close>)
  then obtain w' where w': "sync_run (3 * length rs) i ?w = Ok w'" "current w' = current ?w" "queue (syncs w' ! i) = []" "phase (syncs w' ! i) = Waiting"
    "upcalls_made w' = upcalls_made ?w @ map request_upcall rs" "accepted (syncs w' ! i) = accepted (syncs ?w ! i)" by blast
  have "sync_run (3 + 3 * length rs) i w = Ok w'"
    by (rule sync_run_add [OF serve_one w'(1)]) (use Cons.prems in simp_all)
  then show ?case using w' Cons.prems(1) by (auto simp: set_sync_def)
qed

lemma run_blocked: "sync_step i w = None \<Longrightarrow> sync_run n i w = Ok w"
  by (cases n) simp_all

lemma sync_run_ok: "sync_run n i w = Ok w' \<Longrightarrow> world_ok w \<Longrightarrow> world_ok w'"
  by (induction n arbitrary: w) (auto split: option.splits dest: sync_step_ok)

text \<open>The calls a synchronizer still has to make before it looks at its queue again.\<close>

definition pending_calls :: "sync_phase \<Rightarrow> upcall list" where
  "pending_calls p = (if p = Starting then [Init_synchronizer_thread] else map request_upcall (in_hand p))"

lemma comes_to_wait:
  assumes "world_ok w" "current w = Some i" "phase (syncs w ! i) \<noteq> Unspawned"
  shows "\<exists>k w'. k \<le> 2 \<and> sync_run k i w = Ok w' \<and> phase (syncs w' ! i) = Waiting \<and>
    queue (syncs w' ! i) = queue (syncs w ! i) \<and> accepted (syncs w' ! i) = accepted (syncs w ! i) \<and>
    current w' = current w \<and> upcalls_made w' = upcalls_made w @ pending_calls (phase (syncs w ! i))"
proof (cases "phase (syncs w ! i)")
  case Starting
  then show ?thesis
    using current_sync [OF assms(1,2)]
    by (intro exI [of _ 1]) (simp add: pending_calls_def sync_step_def Let_def make_upcall_def
        register_gc_thread_def set_sync_def)
next
  case (Serving r)
  then show ?thesis
    using current_sync [OF assms(1,2)]
    by (intro exI [of _ 2]) (simp add: pending_calls_def numeral_2_eq_2 sync_step_def Let_def make_upcall_def set_sync_def)
next
  case (Replying a)
  then show ?thesis
    using current_sync [OF assms(1,2)]
    by (intro exI [of _ 1]) (simp add: pending_calls_def sync_step_def Let_def set_sync_def)
qed (use assms(3) current_sync [OF assms(1,2)] in \<open>auto simp: pending_calls_def intro!: exI [of _ 0]\<close>)

text \<open>
  C18. Outside an initialisation, the current synchronizer is never stuck: wherever it is, within three steps for each
  queued request and two more it has served everything that was ever accepted. It finishes
  what it is doing, makes the queued upcalls in order, answers each (the answers pile up:
  nothing receives them), and blocks for the next request.
\<close>

theorem queue_is_drained:
  assumes "reachable w" "init_stage w = Idle" "current w = Some i"
  shows "\<exists>w'. sync_run (3 * length (queue (syncs w ! i)) + 2) i w = Ok w' \<and>
    served (syncs w' ! i) = accepted (syncs w ! i) \<and>
    answers (syncs w' ! i) = map request_answer (accepted (syncs w ! i)) \<and>
    upcalls_made w' = upcalls_made w @ pending_calls (phase (syncs w ! i)) @ map request_upcall (queue (syncs w ! i)) \<and>
    sync_step i w' = None"
proof -
  have ok: "world_ok w" by (rule reachable_ok [OF assms(1)])
  have spawned: "phase (syncs w ! i) \<noteq> Unspawned"
    using ok assms(2) current_sync(1) [OF ok assms(3)] by (auto simp: world_ok_def globals_ok_def Let_def spawning_def)
  obtain k w1 where w1: "k \<le> 2" "sync_run k i w = Ok w1" "phase (syncs w1 ! i) = Waiting"
    "queue (syncs w1 ! i) = queue (syncs w ! i)" "accepted (syncs w1 ! i) = accepted (syncs w ! i)"
    "current w1 = Some i" "upcalls_made w1 = upcalls_made w @ pending_calls (phase (syncs w ! i))"
    using comes_to_wait [OF ok assms(3) spawned] assms(3) by auto
  have ok1: "world_ok w1" by (rule sync_run_ok [OF w1(2) ok])
  obtain w2 where w2: "sync_run (3 * length (queue (syncs w ! i))) i w1 = Ok w2" "queue (syncs w2 ! i) = []"
    "phase (syncs w2 ! i) = Waiting" "upcalls_made w2 = upcalls_made w1 @ map request_upcall (queue (syncs w ! i))"
    "accepted (syncs w2 ! i) = accepted (syncs w1 ! i)" "current w2 = current w1"
    using serve_all [OF current_sync(1) [OF ok1 w1(6)] w1(3) current_sync(4,5) [OF ok1 w1(6)] w1(4)] by blast
  note now = current_sync [OF sync_run_ok [OF w2(1) ok1] w2(6) [unfolded w1(6)]]
  have blocked: "sync_step i w2 = None" using now w2(2,3) by (simp add: sync_step_def Let_def)
  have "sync_run (k + 3 * length (queue (syncs w ! i)) + (2 - k)) i w = Ok w2"
    by (rule sync_run_add [OF sync_run_add [OF w1(2) w2(1)] run_blocked [OF blocked]])
  then have "sync_run (3 * length (queue (syncs w ! i)) + 2) i w = Ok w2"
    using w1(1) by (simp add: add.commute)
  moreover have "served (syncs w2 ! i) = accepted (syncs w ! i)"
    "answers (syncs w2 ! i) = map request_answer (accepted (syncs w ! i))"
    using sync_of [OF sync_run_ok [OF w2(1) ok1] now(1)] w2(2,3,5) w1(5) by (auto simp: sync_ok_def)
  ultimately show ?thesis using w2(4) w1(7) blocked by (intro exI [of _ w2]) simp
qed

theorem queue_is_drained_witness:
  "\<exists>w. sync_run 5 0 sample_world = Ok w \<and> served (syncs w ! 0) = [Acquire 7] \<and> answers (syncs w ! 0) = [Acquired] \<and>
    upcalls_made w = [Init_synchronizer_thread, Stop_all_mutators 7]"
  using queue_is_drained [OF sample_reachable, of 0]
  by (auto simp: sample_world_simps new_sync_def pending_calls_def request_upcall_def request_answer_def)


section \<open>A second initialisation\<close>

text \<open>A synchronizer cut off with work left: it serves at most one more request.\<close>

definition cut_off :: "nat \<Rightarrow> nat \<Rightarrow> world \<Rightarrow> bool" where
  "cut_off i n w \<longleftrightarrow>
     (let s = syncs w ! i in i < length (syncs w) \<and> \<not> sender_open s \<and> \<not> receiver_open s \<and>
      (case phase s of
         Waiting \<Rightarrow> length (served s) = n \<and> queue s \<noteq> []
       | Serving r \<Rightarrow> length (served s) = n
       | Replying a \<Rightarrow> length (served s) = Suc n
       | Dead \<Rightarrow> length (served s) = Suc n
       | _ \<Rightarrow> False))"

lemma cut_off_eq:
  assumes "cut_off i n w" "i < length (syncs w')" "syncs w' ! i = syncs w ! i"
  shows "cut_off i n w'"
  using assms by (simp add: cut_off_def Let_def)

lemma cut_off_not_current:
  assumes "world_ok w" "cut_off i n w"
  shows "current w \<noteq> Some i" "receiving w \<noteq> Some i"
  using assms by (auto simp: world_ok_def globals_ok_def cut_off_def Let_def split: if_splits)

lemma cut_off_send:
  assumes "world_ok w" "cut_off i n w"
  shows "cut_off i n (send_or_print r w)"
proof (rule cut_off_eq [OF assms(2)])
  show "i < length (syncs (send_or_print r w))"
    using assms(2) by (auto simp: cut_off_def Let_def send_or_print_def send_request_def set_sync_def
        split: option.splits sum.splits if_splits)
  show "syncs (send_or_print r w) ! i = syncs w ! i"
    using cut_off_not_current [OF assms] by (auto simp: send_or_print_def send_request_def set_sync_def Let_def
        split: option.splits sum.splits if_splits)
qed

lemma cut_off_init:
  assumes "world_ok w" "cut_off i n w"
  shows "cut_off i n (gc_init_table calls w)" "cut_off i n (gc_init_sender w)"
    "cut_off i n (gc_init_receiver w)" "cut_off i n (gc_init_spawn w)"
  using assms(2) cut_off_not_current [OF assms]
  by (auto simp: cut_off_def Let_def gc_init_table_def gc_init_sender_def gc_init_receiver_def gc_init_spawn_def
      nth_append nth_update_sync)

lemma cut_off_sync:
  assumes "cut_off i n w" "sync_step j w = Some (Ok w')"
  shows "cut_off i n w'"
  using assms(2) refl
  by (cases rule: sync_stepE)
     (use assms(1) in \<open>auto simp: cut_off_def Let_def set_sync_def register_gc_thread_def nth_list_update\<close>)

lemma cut_off_upcall: "make_upcall u w = Ok w' \<Longrightarrow> cut_off i n w \<Longrightarrow> cut_off i n w'"
  by (auto simp: make_upcall_def cut_off_def split: if_splits)

lemma cut_off_registration:
  "w' = register_gc_thread (Gc_thread n) w \<or> unregister_gc_thread (Gc_thread n) w = Ok w' \<Longrightarrow>
    cut_off i k w \<Longrightarrow> cut_off i k w'"
  by (drule gc_thread_registration(1), erule ssubst) (simp add: cut_off_def)

lemma cut_off_step:
  assumes "step w w'" "world_ok w" "cut_off i n w"
  shows "cut_off i n w'"
  using assms(1)
  by (rule stepE)
     (use assms(2,3) in \<open>auto simp: stop_all_mutators_def resume_mutators_def block_for_gc_def out_of_memory_def
       schedule_finalization_def intro: cut_off_init cut_off_send cut_off_sync cut_off_upcall cut_off_registration\<close>)

interpretation cut_off: stable_property init_world step world_ok "cut_off i n" for i n
  by unfold_locales (rule cut_off_step)

text \<open>
  C29. Initialising again can lose requests: when \<open>RES_RECEIVER\<close> is overwritten while the old
  synchronizer, about to take its next request, still has one queued, then whatever
  happens next it makes at most one more upcall, and it never comes to the end of its loop
  (it dies of the answer it cannot send), so that it stays registered as a GC thread.
\<close>

theorem second_init_kills_synchronizer:
  assumes "reachable w" "i < length (syncs w)" "\<not> receiver_open (syncs w ! i)"
    and "phase (syncs w ! i) = Waiting" "queue (syncs w ! i) \<noteq> []" "step\<^sup>*\<^sup>* w w'"
  shows "length (served (syncs w' ! i)) \<le> length (served (syncs w ! i)) + 1 \<and> phase (syncs w' ! i) \<noteq> Finished \<and>
    (\<exists>ts. gc_threads w' = Some ts \<and> Synchronizer i \<in> ts)"
proof -
  have ok: "world_ok w" by (rule reachable_ok [OF assms(1)])
  have "cut_off i (length (served (syncs w ! i))) w"
    using assms(2-5) sync_of [OF ok assms(2)] by (auto simp: cut_off_def Let_def sync_ok_def)
  then have "world_ok w'" "cut_off i (length (served (syncs w ! i))) w'"
    using synchronizers.inv_steps [OF assms(6) ok] cut_off.stays [OF assms(6) ok] by blast+
  then show ?thesis
    using registered_iff [of w' i] by (auto simp: cut_off_def Let_def running_def split: sync_phase.splits)
qed

text \<open>The second call, with the first request of the first synchronizer still queued.\<close>

definition twice_initialised :: "world \<Rightarrow> bool" where
  "twice_initialised w \<longleftrightarrow> (\<exists>w0. sync_step 0 sample_world = Some (Ok w0) \<and> w = scalanative_gc_init 0x200 w0)"

theorem second_init_kills_synchronizer_witness:
  "\<exists>w. twice_initialised w \<and> queue (syncs w ! 0) = [Acquire 7] \<and> length (served (syncs w ! 0)) \<le> 0 + 1 \<and>
    phase (syncs w ! 0) \<noteq> Finished"
proof -
  obtain w0 where w0: "sync_step 0 sample_world = Some (Ok w0)" "current w0 = Some 0" "receiving w0 = Some 0"
    "init_stage w0 = Idle" "length (syncs w0) = 1" "phase (syncs w0 ! 0) = Waiting" "queue (syncs w0 ! 0) = [Acquire 7]"
    "served (syncs w0 ! 0) = []"
    by (simp add: sync_step_def sample_world_simps Let_def make_upcall_def register_gc_thread_def set_sync_def new_sync_def)
  let ?w = "scalanative_gc_init 0x200 w0"
  have "reachable w0" by (rule reachable_step [OF sample_reachable step_sync [OF w0(1)]])
  then have r: "reachable ?w"
    using gc_init_steps [OF w0(4), of "0x200"] unfolding reachable_iff by (simp add: rtranclp_trans)
  have w: "length (syncs ?w) = 2" "\<not> receiver_open (syncs ?w ! 0)" "phase (syncs ?w ! 0) = Waiting"
    "queue (syncs ?w ! 0) = [Acquire 7]" "served (syncs ?w ! 0) = []"
    using w0 by (simp_all add: scalanative_gc_init_def gc_init_table_def gc_init_sender_def gc_init_receiver_def
        gc_init_spawn_def nth_append nth_update_sync)
  have "length (served (syncs ?w ! 0)) \<le> length (served (syncs ?w ! 0)) + 1 \<and> phase (syncs ?w ! 0) \<noteq> Finished \<and>
    (\<exists>ts. gc_threads ?w = Some ts \<and> Synchronizer 0 \<in> ts)"
    by (rule second_init_kills_synchronizer [OF r]) (simp_all add: w)
  then show ?thesis using w(4,5) w0(1) unfolding twice_initialised_def by (metis add_0 list.size(3))
qed


section \<open>GC threads\<close>

text \<open>The registry is never unset again.\<close>

lemma registry_stays: "step w w' \<Longrightarrow> gc_threads w \<noteq> None \<Longrightarrow> gc_threads w' \<noteq> None"
proof (erule stepE, goal_cases)
  case (10 i)
  then have "sync_step i w = Some (Ok w')" by simp
  then show ?case
    by (rule sync_stepE [OF _ refl]) (use 10(1) in \<open>auto simp: set_sync_def register_gc_thread_def\<close>)
qed (auto simp: gc_init_defs stop_all_mutators_def resume_mutators_def send_or_print_def send_request_def Let_def
    set_sync_def block_for_gc_def out_of_memory_def schedule_finalization_def make_upcall_def register_gc_thread_def
    unregister_gc_thread_def split: option.splits sum.splits if_splits)

lemma registry_stays_run: "step\<^sup>*\<^sup>* w w' \<Longrightarrow> gc_threads w \<noteq> None \<Longrightarrow> gc_threads w' \<noteq> None"
  by (induction rule: rtranclp_induct) (use registry_stays in blast)+

definition announced :: "nat \<Rightarrow> u64 \<Rightarrow> gc_thread_context \<Rightarrow> world \<Rightarrow> world" where
  "announced n p ctx w =
     (register_gc_thread (Gc_thread n) w)
       \<lparr>upcalls_made := upcalls_made w @ [Init_gc_worker_thread p (context_ptr ctx)]\<rparr>"

lemma announced_steps: "upcalls_ptr w \<noteq> 0 \<Longrightarrow> step\<^sup>*\<^sup>* w (announced n p ctx w)"
proof -
  assume up: "upcalls_ptr w \<noteq> 0"
  have "step w (register_gc_thread (Gc_thread n) w)" by (rule step_gc_register)
  moreover have "step (register_gc_thread (Gc_thread n) w) (announced n p ctx w)"
    by (rule step_gc_init [of p "context_ptr ctx"]) (use up in \<open>simp add: make_upcall_def register_gc_thread_def announced_def\<close>)
  ultimately show ?thesis by (meson converse_rtranclp_into_rtranclp rtranclp.rtrancl_refl)
qed

text \<open>
  C32. The whole life of a spawned GC thread, with all that other threads do meanwhile, is a run of
  the interleavings, so that their invariants hold in it: it registers and announces itself before it enters
  mmtk-core; if mmtk-core ever returns (after any steps of the process), its unregistering cannot fail, and
  exactly this thread has left the registry. Started before the table of upcalls is set, it faults.
\<close>

theorem gc_thread_life:
  assumes "box_tls m p (context_tls ctx) = Ok m1"
    and core: "\<And>m2 w2. start ctx (to_vwt p) (m1, announced n p ctx w) = Some (m2, w2) \<Longrightarrow> step\<^sup>*\<^sup>* (announced n p ctx w) w2"
  shows "if upcalls_ptr w = 0 then gc_thread_main start n p ctx (m, w) = Some (Err Segv)
    else (case start ctx (to_vwt p) (m1, announced n p ctx w) of
        None \<Rightarrow> gc_thread_main start n p ctx (m, w) = None
      | Some (m2, w2) \<Rightarrow> \<exists>ts w3. gc_threads w2 = Some ts \<and> w3 = w2\<lparr>gc_threads := Some (ts - {Gc_thread n})\<rparr> \<and>
          gc_thread_main start n p ctx (m, w) = Some (Ok (m2, w3)) \<and> step\<^sup>*\<^sup>* w w3)"
proof (cases "upcalls_ptr w = 0")
  case True
  then show ?thesis using assms(1) by (simp add: gc_thread_main_def make_upcall_def register_gc_thread_def)
next
  case False
  have main: "gc_thread_main start n p ctx (m, w) =
      (case start ctx (to_vwt p) (m1, announced n p ctx w) of
         None \<Rightarrow> None
       | Some (m2, w2) \<Rightarrow> Some (bindR (unregister_gc_thread (Gc_thread n) w2) (\<lambda>w. Ok (m2, w))))"
    using assms(1) False by (simp add: gc_thread_main_def make_upcall_def announced_def register_gc_thread_def)
  have "\<exists>ts. gc_threads w2 = Some ts \<and> unregister_gc_thread (Gc_thread n) w2 = Ok (w2\<lparr>gc_threads := Some (ts - {Gc_thread n})\<rparr>) \<and>
      step\<^sup>*\<^sup>* w (w2\<lparr>gc_threads := Some (ts - {Gc_thread n})\<rparr>)"
    if "start ctx (to_vwt p) (m1, announced n p ctx w) = Some (m2, w2)" for m2 w2
  proof -
    have run: "step\<^sup>*\<^sup>* (announced n p ctx w) w2" by (rule core [OF that])
    have "gc_threads (announced n p ctx w) \<noteq> None" by (simp add: announced_def register_gc_thread_def)
    then obtain ts where ts: "gc_threads w2 = Some ts" using registry_stays_run [OF run] by blast
    then have un: "unregister_gc_thread (Gc_thread n) w2 = Ok (w2\<lparr>gc_threads := Some (ts - {Gc_thread n})\<rparr>)"
      by (simp add: unregister_gc_thread_def)
    with rtranclp_trans [OF announced_steps [OF False] run] have "step\<^sup>*\<^sup>* w (w2\<lparr>gc_threads := Some (ts - {Gc_thread n})\<rparr>)"
      by (meson rtranclp.rtrancl_into_rtrancl step_gc_unregister)
    with ts un show ?thesis by blast
  qed
  then show ?thesis using False main by (auto split: option.splits)
qed

text \<open>A worker that stops the mutators once and returns, while another GC thread comes up.\<close>

theorem gc_thread_life_witness:
  "\<exists>m1 w3 ts. gc_thread_main (\<lambda>ctx tls (m, w). Some (m, stop_all_mutators 8 (register_gc_thread (Gc_thread 4) w))) 3 0x4000 (Worker 0x900)
      (word_mem [(0x4000, 0), (0x4008, 0)], sample_world) = Some (Ok (m1, w3)) \<and> step\<^sup>*\<^sup>* sample_world w3 \<and>
    gc_threads w3 = Some ts \<and> Gc_thread 3 \<notin> ts"
proof -
  let ?m = "word_mem [(0x4000, 0), (0x4008, 0)]"
  let ?start = "\<lambda>(ctx :: gc_thread_context) (tls :: u64) (m :: mem, w). Some (m, stop_all_mutators 8 (register_gc_thread (Gc_thread 4) w))"
  have "load32 ?m 0x4000 = Ok 0" "load64 ?m (0x4000 + 8) = Ok 0" by (simp_all add: aligned8_def)
  then obtain m1 where m1: "box_tls ?m 0x4000 (context_tls (Worker 0x900)) = Ok m1" using box_tls_total by blast
  have run: "step\<^sup>*\<^sup>* w (stop_all_mutators 8 (register_gc_thread (Gc_thread 4) w))" for w
    by (meson converse_rtranclp_into_rtranclp rtranclp.rtrancl_refl step_gc_register step_stop)
  show ?thesis
    using gc_thread_life [OF m1, of ?start 3 sample_world] run by (auto simp: sample_world_simps)
qed

end
