(* ===== verification/Mutator_Service.thy ===== *)
theory Mutator_Service
  imports Collection_Props
begin

text \<open>
  The service that stopping and resuming mutators promises, without channels, phases of a
  thread or stages of an initialisation: servers in the order in which they were opened, of
  which the last accepts requests; each performs its requests in their order, one at a time,
  and answers a request before it performs the next. The interleavings of \<open>Collection\<close>
  refine it.
\<close>

section \<open>The service\<close>

record server =
  todo :: "sync_request list"
  unanswered :: "sync_response list"
  answered :: "sync_response list"
  retired :: bool

record service =
  servers :: "server list"
  performed :: "upcall list"

definition new_server :: server where
  "new_server = \<lparr>todo = [], unanswered = [], answered = [], retired = False\<rparr>"

text \<open>
  A server retires only when a newer one has replaced it, and then with nothing left to do,
  or with an answer that nobody receives: what it still had to do is lost.
\<close>

inductive service_step :: "service \<Rightarrow> service \<Rightarrow> bool" where
  open_server: "service_step v (v\<lparr>servers := servers v @ [new_server]\<rparr>)"
| accept: "Suc i = length (servers v) \<Longrightarrow> s = servers v ! i \<Longrightarrow> \<not> retired s \<Longrightarrow>
    service_step v (v\<lparr>servers := (servers v)[i := s\<lparr>todo := todo s @ [r]\<rparr>]\<rparr>)"
| perform: "i < length (servers v) \<Longrightarrow> s = servers v ! i \<Longrightarrow> \<not> retired s \<Longrightarrow> unanswered s = [] \<Longrightarrow> todo s = r # rs \<Longrightarrow>
    service_step v (v\<lparr>servers := (servers v)[i := s\<lparr>todo := rs, unanswered := [request_answer r]\<rparr>],
      performed := performed v @ [request_upcall r]\<rparr>)"
| answer: "i < length (servers v) \<Longrightarrow> s = servers v ! i \<Longrightarrow> \<not> retired s \<Longrightarrow> unanswered s = [a] \<Longrightarrow>
    service_step v (v\<lparr>servers := (servers v)[i := s\<lparr>unanswered := [], answered := answered s @ [a]\<rparr>]\<rparr>)"
| retire: "Suc i < length (servers v) \<Longrightarrow> s = servers v ! i \<Longrightarrow> \<not> retired s \<Longrightarrow> todo s = [] \<or> unanswered s \<noteq> [] \<Longrightarrow>
    service_step v (v\<lparr>servers := (servers v)[i := s\<lparr>unanswered := [], retired := True\<rparr>]\<rparr>)"

definition init_service :: service where
  "init_service = \<lparr>servers = [], performed = []\<rparr>"


section \<open>The abstraction\<close>

definition server_of :: "sync \<Rightarrow> server" where
  "server_of s = \<lparr>todo = in_hand (phase s) @ queue s, unanswered = owed (phase s), answered = answers s,
     retired = (phase s = Finished \<or> phase s = Dead)\<rparr>"

definition service_of :: "world \<Rightarrow> service" where
  "service_of w = \<lparr>servers = map server_of (syncs w), performed = mutator_upcalls w\<rparr>"

lemma service_of_simps [simp]:
  "servers (service_of w) = map server_of (syncs w)" "performed (service_of w) = mutator_upcalls w"
  by (simp_all add: service_of_def)

lemma server_of_simps [simp]:
  "todo (server_of s) = in_hand (phase s) @ queue s" "unanswered (server_of s) = owed (phase s)"
  "answered (server_of s) = answers s" "retired (server_of s) = (phase s = Finished \<or> phase s = Dead)"
  by (simp_all add: server_of_def)

lemma service_eqI:
  "map server_of (syncs w) = servers v \<Longrightarrow> mutator_upcalls w = performed v \<Longrightarrow> service_of w = v"
  by (simp add: service_of_def)

text \<open>Steps that change what only the implementation knows.\<close>

lemma map_update_sync:
  assumes "\<And>j. i = Some j \<Longrightarrow> j < length ss \<Longrightarrow> g (f (ss ! j)) = g (ss ! j)"
  shows "map g (update_sync f i ss) = map g ss"
  using assms by (intro nth_equalityI) (auto simp: nth_update_sync)

lemma hidden_init:
  assumes "world_ok w"
  shows "service_of (gc_init_table calls w) = service_of w" "service_of (gc_init_receiver w) = service_of w"
    "init_stage w = Receiver_swapped \<Longrightarrow> service_of (gc_init_spawn w) = service_of w"
proof -
  show "service_of (gc_init_table calls w) = service_of w"
    by (simp add: service_of_def gc_init_table_def mutator_upcalls_def)
  show "service_of (gc_init_receiver w) = service_of w"
    by (simp add: service_of_def gc_init_receiver_def mutator_upcalls_def map_update_sync server_of_def)
  assume st: "init_stage w = Receiver_swapped"
  have "phase (syncs w ! j) = Unspawned" if "current w = Some j" "j < length (syncs w)" for j
    using st that globals(1,5) [OF assms] by (auto simp: spawning_def split: if_splits)
  then show "service_of (gc_init_spawn w) = service_of w"
    by (simp add: service_of_def gc_init_spawn_def mutator_upcalls_def map_update_sync server_of_def)
qed

lemma hidden_upcall: "make_upcall u w = Ok w' \<Longrightarrow> \<not> mutator_upcall u \<Longrightarrow> service_of w' = service_of w"
  by (auto simp: make_upcall_def service_of_def mutator_upcalls_def split: if_splits)

lemma hidden_registration:
  "w' = register_gc_thread (Gc_thread n) w \<or> unregister_gc_thread (Gc_thread n) w = Ok w' \<Longrightarrow> service_of w' = service_of w"
  by (drule gc_thread_registration(1), erule ssubst) (simp add: service_of_def mutator_upcalls_def)


section \<open>The refinement\<close>

lemma sender_opens: "service_step (service_of w) (service_of (gc_init_sender w))"
proof -
  have "service_of (gc_init_sender w) = (service_of w)\<lparr>servers := servers (service_of w) @ [new_server]\<rparr>"
    by (simp add: service_of_def gc_init_sender_def mutator_upcalls_def map_update_sync server_of_def new_server_def
        new_sync_def)
  then show ?thesis using open_server by metis
qed

lemma send_accepts:
  assumes ok: "world_ok w"
  shows "service_of (send_or_print r w) = service_of w \<or> service_step (service_of w) (service_of (send_or_print r w))"
proof (cases "send_request r w")
  case (Inl e)
  then show ?thesis by (simp add: send_or_print_def service_of_def mutator_upcalls_def)
next
  case (Inr w')
  then obtain i where i: "current w = Some i"
    and p: "phase (syncs w ! i) \<noteq> Dead" "phase (syncs w ! i) \<noteq> Finished"
    and w': "w' = set_sync i ((syncs w ! i)\<lparr>queue := queue (syncs w ! i) @ [r], accepted := accepted (syncs w ! i) @ [r]\<rparr>) w"
    by (auto simp: send_request_def Let_def split: option.splits if_splits)
  note last = current_sync(1,2) [OF ok i]
  have "service_of w' = (service_of w)\<lparr>servers := (servers (service_of w))
      [i := (servers (service_of w) ! i)\<lparr>todo := todo (servers (service_of w) ! i) @ [r]\<rparr>]\<rparr>"
    using last by (simp add: w' service_of_def set_sync_def mutator_upcalls_def map_update server_of_def)
  moreover have "service_step (service_of w) \<dots>"
    by (rule accept) (use last p in simp_all)
  ultimately show ?thesis by (simp add: send_or_print_def Inr)
qed

lemma closed_not_last:
  assumes "world_ok w" "i < length (syncs w)" "\<not> sender_open (syncs w ! i) \<or> \<not> receiver_open (syncs w ! i)"
  shows "Suc i < length (syncs w)"
  using assms(2,3) globals(3,4) [OF assms(1,2)] by (cases "Suc i = length (syncs w)") auto

lemma set_sync_service:
  assumes "syncs w' = (syncs w)[i := s]"
  shows "service_of w' = \<lparr>servers = (servers (service_of w))[i := server_of s], performed = mutator_upcalls w'\<rparr>"
  using assms by (simp add: service_of_def map_update)

text \<open>
  Synchronizer \<open>i\<close> becomes \<open>s'\<close>: a step of server \<open>i\<close>, or hidden when the server stays the
  same.
\<close>

lemma hidden_sync:
  assumes "i < length (syncs w)" "syncs w' = (syncs w)[i := s']" "mutator_upcalls w' = mutator_upcalls w"
    and "server_of s' = server_of (syncs w ! i)"
  shows "service_of w' = service_of w"
proof -
  have "servers (service_of w) ! i = server_of s'" using assms(1,4) by simp
  then have "(servers (service_of w))[i := server_of s'] = servers (service_of w)" by (metis list_update_id)
  then show ?thesis using set_sync_service [OF assms(2)] assms(3) by simp
qed

lemma server_steps:
  assumes "i < length (syncs w)" "syncs w' = (syncs w)[i := s']" "s = server_of (syncs w ! i)" "\<not> retired s"
  shows "mutator_upcalls w' = mutator_upcalls w @ [request_upcall r] \<Longrightarrow> unanswered s = [] \<Longrightarrow> todo s = r # rs \<Longrightarrow>
      server_of s' = s\<lparr>todo := rs, unanswered := [request_answer r]\<rparr> \<Longrightarrow> service_step (service_of w) (service_of w')"
    and "mutator_upcalls w' = mutator_upcalls w \<Longrightarrow> unanswered s = [a] \<Longrightarrow>
      server_of s' = s\<lparr>unanswered := [], answered := answered s @ [a]\<rparr> \<Longrightarrow> service_step (service_of w) (service_of w')"
    and "mutator_upcalls w' = mutator_upcalls w \<Longrightarrow> Suc i < length (syncs w) \<Longrightarrow> todo s = [] \<or> unanswered s \<noteq> [] \<Longrightarrow>
      server_of s' = s\<lparr>unanswered := [], retired := True\<rparr> \<Longrightarrow> service_step (service_of w) (service_of w')"
  using set_sync_service [OF assms(2)] assms(1,3,4)
    perform [of i "service_of w" s r rs] answer [of i "service_of w" s a] retire [of i "service_of w" s]
  by (simp_all add: service_of_def)

lemma sync_step_serves:
  assumes ok: "world_ok w" and step: "sync_step i w = Some (Ok w')"
  shows "service_of w' = service_of w \<or> service_step (service_of w) (service_of w')"
  using step refl
proof (cases rule: sync_stepE)
  case start
  then have "service_of w' = service_of w"
    by (intro hidden_sync [OF start(1), where s' = "(syncs w ! i)\<lparr>phase := Waiting\<rparr>"])
       (simp_all add: set_sync_def register_gc_thread_def mutator_upcalls_def server_of_def)
  then show ?thesis ..
next
  case (take_request r q)
  then have "service_of w' = service_of w"
    by (intro hidden_sync [OF take_request(1), where s' = "(syncs w ! i)\<lparr>queue := q, phase := Serving r\<rparr>"])
       (simp_all add: set_sync_def mutator_upcalls_def server_of_def)
  then show ?thesis ..
next
  case (finish ts)
  then have "service_step (service_of w) (service_of w')"
    using closed_not_last [OF ok finish(1)]
    by (intro server_steps(3) [OF finish(1) _ refl, where s' = "(syncs w ! i)\<lparr>phase := Finished\<rparr>"])
       (auto simp: set_sync_def mutator_upcalls_def server_of_def)
  then show ?thesis ..
next
  case (serve r)
  then have "service_step (service_of w) (service_of w')"
    by (intro server_steps(1) [OF serve(1) _ refl, where r = r and rs = "queue (syncs w ! i)"
        and s' = "(syncs w ! i)\<lparr>phase := Replying (request_answer r), served := served (syncs w ! i) @ [r]\<rparr>"])
       (auto simp: set_sync_def mutator_upcalls_def server_of_def)
  then show ?thesis ..
next
  case (reply a)
  then have "service_step (service_of w) (service_of w')"
    by (intro server_steps(2) [OF reply(1) _ refl, where a = a
        and s' = "(syncs w ! i)\<lparr>answers := answers (syncs w ! i) @ [a], phase := Waiting\<rparr>"])
       (auto simp: set_sync_def mutator_upcalls_def server_of_def)
  then show ?thesis ..
next
  case (die a)
  then have "service_step (service_of w) (service_of w')"
    using closed_not_last [OF ok die(1)]
    by (intro server_steps(3) [OF die(1) _ refl, where s' = "(syncs w ! i)\<lparr>phase := Dead\<rparr>"])
       (auto simp: set_sync_def mutator_upcalls_def server_of_def)
  then show ?thesis ..
qed

lemma step_refines:
  assumes "step w w'" "world_ok w"
  shows "service_of w' = service_of w \<or> service_step (service_of w) (service_of w')"
  using assms(1)
  by (rule stepE)
     (use assms(2) send_accepts [OF assms(2)] sync_step_serves [OF assms(2)] in \<open>auto simp: stop_all_mutators_def
       resume_mutators_def block_for_gc_def out_of_memory_def schedule_finalization_def hidden_init sender_opens
       dest: hidden_upcall hidden_registration [OF disjI2] intro: hidden_registration\<close>)

lemma service_of_init: "service_of init_world = init_service"
  by (simp add: service_of_def init_world_def init_service_def mutator_upcalls_def)

interpretation service: refinement_mapping init_world step world_ok service_of service_step init_service
  by unfold_locales (rule service_of_init, rule step_refines)


section \<open>What the service keeps\<close>

text \<open>The last server is open, and no request is answered before it is performed.\<close>

definition replies :: "server \<Rightarrow> nat" where
  "replies s = length (answered s) + length (unanswered s)"

definition service_ok :: "service \<Rightarrow> bool" where
  "service_ok v \<longleftrightarrow> sum_list (map replies (servers v)) \<le> length (performed v) \<and>
     (\<forall>i<length (servers v). length (unanswered (servers v ! i)) \<le> 1 \<and>
       (retired (servers v ! i) \<longrightarrow> Suc i < length (servers v)))"

lemma sum_replies_update:
  assumes "i < length ss"
  shows "sum_list (map replies (ss[i := s])) + replies (ss ! i) = sum_list (map replies ss) + replies s"
proof -
  have "replies (ss ! i) \<le> sum_list (map replies ss)"
    using assms elem_le_sum_list [of i "map replies ss"] by simp
  then show ?thesis
    using assms sum_list_update [of i "map replies ss" "replies s"] by (simp add: map_update)
qed

lemma service_ok_step: "service_step v v' \<Longrightarrow> service_ok v \<Longrightarrow> service_ok v'"
proof (induction rule: service_step.induct)
  case (open_server v)
  then show ?case by (auto simp: service_ok_def nth_append new_server_def replies_def)
next
  case (accept i v s r)
  then show ?case
    using sum_replies_update [of i "servers v" "s\<lparr>todo := todo s @ [r]\<rparr>"]
    by (auto simp: service_ok_def nth_list_update replies_def)
next
  case (perform i v s r rs)
  then show ?case
    using sum_replies_update [of i "servers v" "s\<lparr>todo := rs, unanswered := [request_answer r]\<rparr>"]
    by (auto simp: service_ok_def nth_list_update replies_def)
next
  case (answer i v s a)
  then show ?case
    using sum_replies_update [of i "servers v" "s\<lparr>unanswered := [], answered := answered s @ [a]\<rparr>"]
    by (auto simp: service_ok_def nth_list_update replies_def)
next
  case (retire i v s)
  then show ?case
    using sum_replies_update [of i "servers v" "s\<lparr>unanswered := [], retired := True\<rparr>"]
    by (auto simp: service_ok_def nth_list_update replies_def)
qed

interpretation service_spec: inductive_invariant init_service service_step service_ok
  by unfold_locales (simp add: service_ok_def init_service_def, rule service_ok_step)

lemma reachable_service_ok: "reachable w \<Longrightarrow> service_ok (service_of w)"
  unfolding reachable_iff by (rule service.transfer, assumption, rule service_spec.inv_reached)

text \<open>
  C8. Every interleaving of the runtime, the GC workers and the synchronizer threads is a run
  of the abstract service: each step is one of the service's or changes nothing that the
  service shows. So the last synchronizer never ends, and no answer precedes its upcall.
\<close>

theorem synchronizers_refine_service:
  assumes "reachable w" "step w w'"
  shows "service_step\<^sup>*\<^sup>* init_service (service_of w) \<and>
    (service_of w' = service_of w \<or> service_step (service_of w) (service_of w')) \<and>
    sum_list (map (\<lambda>s. length (answers s)) (syncs w')) \<le> length (mutator_upcalls w') \<and>
    (syncs w' \<noteq> [] \<longrightarrow> phase (last (syncs w')) \<noteq> Finished \<and> phase (last (syncs w')) \<noteq> Dead)"
proof -
  have w': "service_ok (service_of w')" by (rule reachable_service_ok [OF reachable_step [OF assms]])
  have "sum_list (map (\<lambda>s. length (answers s)) (syncs w')) \<le> sum_list (map (replies \<circ> server_of) (syncs w'))"
    by (rule sum_list_mono) (simp add: replies_def)
  moreover have "sum_list (map (replies \<circ> server_of) (syncs w')) \<le> length (mutator_upcalls w')"
    using w' by (simp add: service_ok_def)
  moreover have "phase (last (syncs w')) \<noteq> Finished \<and> phase (last (syncs w')) \<noteq> Dead" if "syncs w' \<noteq> []"
  proof -
    define n where "n = length (syncs w') - 1"
    have n: "n < length (syncs w')" "\<not> Suc n < length (syncs w')" using that by (simp_all add: n_def)
    then have "\<not> retired (server_of (syncs w' ! n))" using w' by (auto simp: service_ok_def)
    then show ?thesis using that by (simp add: last_conv_nth n_def)
  qed
  ultimately show ?thesis
    using service.abs_reached assms(1) step_refines [OF assms(2) reachable_ok [OF assms(1)]]
    unfolding reachable_iff by auto
qed

text \<open>The first step of the synchronizer shows nothing; resuming is accepted by the service.\<close>

theorem synchronizers_refine_service_witness:
  "service_step\<^sup>*\<^sup>* init_service (service_of sample_world) \<and>
   service_step (service_of sample_world) (service_of (resume_mutators 7 sample_world))"
proof -
  have "step sample_world (resume_mutators 7 sample_world)" by (rule step_resume)
  from synchronizers_refine_service [OF sample_reachable this]
  have refined: "service_step\<^sup>*\<^sup>* init_service (service_of sample_world)"
    "service_of (resume_mutators 7 sample_world) = service_of sample_world \<or>
      service_step (service_of sample_world) (service_of (resume_mutators 7 sample_world))" by blast+
  have "service_of (resume_mutators 7 sample_world) \<noteq> service_of sample_world"
    by (simp add: service_of_def resume_mutators_def send_or_print_def send_request_def Let_def set_sync_def
        sample_world_simps new_sync_def server_of_def)
  with refined show ?thesis by blast
qed

end
