(* ===== verification/Object_Model.thy ===== *)
theory Object_Model
  imports Abi
begin

text \<open>
  \<open>src/mmtk/src/object_model.rs\<close>: what mmtk-core asks the binding about objects. \<open>copy\<close>
  evacuates an object; the sizes and addresses are those of \<open>Abi\<close>. Operations the code
  leaves \<open>unimplemented!\<close> or \<open>todo!\<close> are the outcome \<open>Unimplemented\<close>.
\<close>

section \<open>Definitions\<close>

definition OBJECT_REF_OFFSET :: u64 where
  "OBJECT_REF_OFFSET = 0"

text \<open>Where mmtk-core keeps its metadata of an object: in side tables, or at a bit offset of the header.\<close>

datatype metadata_spec = Side_first | Side_after metadata_spec | In_header int

definition GLOBAL_LOG_BIT_SPEC :: metadata_spec where
  "GLOBAL_LOG_BIT_SPEC = Side_first"

definition LOCAL_FORWARDING_POINTER_SPEC :: metadata_spec where
  "LOCAL_FORWARDING_POINTER_SPEC = In_header 0"

definition LOCAL_FORWARDING_BITS_SPEC :: metadata_spec where
  "LOCAL_FORWARDING_BITS_SPEC = In_header 0"

definition LOCAL_MARK_BIT_SPEC :: metadata_spec where
  "LOCAL_MARK_BIT_SPEC = Side_first"

definition LOCAL_LOS_MARK_NURSERY_SPEC :: metadata_spec where
  "LOCAL_LOS_MARK_NURSERY_SPEC = Side_after LOCAL_MARK_BIT_SPEC"

definition LOCAL_PINNING_BIT_SPEC :: "'a build_scheme \<Rightarrow> metadata_spec option" where
  "LOCAL_PINNING_BIT_SPEC c = (if object_pinning c then Some (Side_after LOCAL_LOS_MARK_NURSERY_SPEC) else None)"

definition OBJECT_REF_OFFSET_LOWER_BOUND :: int where
  "OBJECT_REF_OFFSET_LOWER_BOUND = sint OBJECT_REF_OFFSET"

definition NEED_VO_BITS_DURING_TRACING :: bool where
  "NEED_VO_BITS_DURING_TRACING \<longleftrightarrow> True"

definition copy_object ::
    "'a upcalls_scheme \<Rightarrow> 't mmtk \<Rightarrow> u64 \<Rightarrow> nat \<Rightarrow> mem \<times> 't \<Rightarrow> (u64 \<times> mem \<times> 't) res" where
  "copy_object c mm from semantics s =
     bindR (size_for_copy c (fst s) from) (\<lambda>bytes.
     (case alloc_copy mm from bytes (get_allocation_alignment c) 0 semantics s of (dst, m, t) \<Rightarrow>
     bindR (copy_nonoverlapping m from dst (unat bytes)) (\<lambda>m.
     Ok (dst, post_copy mm dst bytes semantics (m, t)))))"

definition copy_to :: "u64 \<Rightarrow> u64 \<Rightarrow> u64 \<Rightarrow> u64 res" where
  "copy_to from to region = Err Unimplemented"

definition get_reference_when_copied_to :: "u64 \<Rightarrow> u64 \<Rightarrow> u64 res" where
  "get_reference_when_copied_to from to = Err Unimplemented"

definition get_current_size :: "'a upcalls_scheme \<Rightarrow> mem \<Rightarrow> u64 \<Rightarrow> u64 res" where
  "get_current_size c m obj = obj_size c m obj"

definition get_size_when_copied :: "'a upcalls_scheme \<Rightarrow> mem \<Rightarrow> u64 \<Rightarrow> u64 res" where
  "get_size_when_copied c m obj = get_current_size c m obj"

definition get_align_when_copied :: "'a upcalls_scheme \<Rightarrow> u64 \<Rightarrow> u64" where
  "get_align_when_copied c obj = get_allocation_alignment c"

text \<open>The alignments that mmtk-core allows for this binding (\<open>lib.rs\<close> 52-53).\<close>

definition MIN_ALIGNMENT :: u64 where
  "MIN_ALIGNMENT = 16"

definition MAX_ALIGNMENT :: u64 where
  "MAX_ALIGNMENT = push_bit 6 1"

definition get_align_offset_when_copied :: "u64 \<Rightarrow> u64" where
  "get_align_offset_when_copied obj = 0"

definition get_type_descriptor :: "u64 \<Rightarrow> i16 list res" where
  "get_type_descriptor obj = Err Unimplemented"

definition ref_to_object_start :: "u64 \<Rightarrow> u64" where
  "ref_to_object_start obj = obj"

definition ref_to_header :: "u64 \<Rightarrow> u64" where
  "ref_to_header obj = obj"

definition ref_to_address :: "u64 \<Rightarrow> u64" where
  "ref_to_address obj = obj"

definition address_to_ref :: "u64 \<Rightarrow> u64" where
  "address_to_ref addr = addr"

definition dump_object :: "u64 \<Rightarrow> unit res" where
  "dump_object obj = Err Unimplemented"


section \<open>Copying\<close>

text \<open>
  C11. Evacuating an object copies exactly its \<open>size_for_copy\<close> bytes to where the
  allocator put it, changes no other byte, asks for an allocation of that size and
  alignment, and hands the new object to \<open>post_copy\<close>.
\<close>

theorem copy_object_bytes:
  assumes "copy_object c mm from sem (m, t) = Ok (dst, s')"
  shows "\<exists>bytes m1 t1 m2.
    size_for_copy c m from = Ok bytes \<and>
    alloc_copy mm from bytes (get_align_when_copied c from) (get_align_offset_when_copied from) sem (m, t)
      = (dst, m1, t1) \<and>
    s' = post_copy mm dst bytes sem (m2, t1) \<and>
    (\<forall>x. m2 x = (if unat (x - dst) < unat bytes then m1 (from + (x - dst)) else m1 x))"
proof -
  obtain bytes where bytes: "size_for_copy c m from = Ok bytes"
    and rest: "(case alloc_copy mm from bytes (get_allocation_alignment c) 0 sem (m, t) of (dst, m, t) \<Rightarrow>
      bindR (copy_nonoverlapping m from dst (unat bytes)) (\<lambda>m.
      Ok (dst, post_copy mm dst bytes sem (m, t)))) = Ok (dst, s')"
    using assms by (auto simp: copy_object_def)
  obtain d m1 t1 where alloc: "alloc_copy mm from bytes (get_allocation_alignment c) 0 sem (m, t) = (d, m1, t1)"
    by (metis prod_cases3)
  then obtain m2 where m2: "copy_nonoverlapping m1 from dst (unat bytes) = Ok m2"
    and "d = dst" "s' = post_copy mm dst bytes sem (m2, t1)"
    using rest by auto
  moreover have "m2 x = (if unat (x - dst) < unat bytes then m1 (from + (x - dst)) else m1 x)" for x
    by (rule copy_nonoverlapping_bytes [OF m2]) (use unsigned_less [of bytes, where ?'a = nat] in simp)
  ultimately show ?thesis
    using bytes alloc by (auto simp: get_align_when_copied_def get_align_offset_when_copied_def)
qed

text \<open>The runtime's alignment is allowed exactly when it is 16, 32 or 64.\<close>

lemma copy_alignment_allowed:
  assumes "alignment_log c k"
  shows "MIN_ALIGNMENT \<le> get_align_when_copied c obj \<and> get_align_when_copied c obj \<le> MAX_ALIGNMENT \<longleftrightarrow>
    4 \<le> k \<and> k \<le> 6"
proof -
  have k: "get_allocation_alignment c = 2 ^ k" "k < 64" using assms by (simp_all add: alignment_log_def)
  have "unat MIN_ALIGNMENT = 2 ^ 4" "unat MAX_ALIGNMENT = 2 ^ 6"
    by (simp_all add: MIN_ALIGNMENT_def MAX_ALIGNMENT_def push_bit_eq_mult)
  then show ?thesis
    unfolding get_align_when_copied_def k(1) word_le_nat_alt unat_exp64 [OF k(2)]
    by (simp only: power_increasing_iff one_less_numeral_iff semiring_norm)
qed

definition copy_sample :: mem where
  "copy_sample = word_mem (rtti_words 0x1000 5 24 0x2000 @ obj_words 0x10000 0x1003 0 [1, 2] @
     [(0x18000, 0), (0x18008, 0), (0x18010, 0), (0x18018, 0)])"

lemma copy_sample_size: "size_for_copy sample_cfg copy_sample 0x10000 = Ok 32"
  by (simp add: copy_sample_def abi_defs)

lemma copy_sample_total:
  "\<exists>s'. copy_object sample_cfg sample_mmtk 0x10000 0 (copy_sample, sample_core []) = Ok (0x18000, s')"
proof -
  have "mapped copy_sample 0x10000 (8 * 4)" "mapped copy_sample 0x18000 (8 * 4)"
    unfolding copy_sample_def
    by (rule mapped_word_mem; simp add: aligned8_def rtti_words_def obj_words_def upt_rec)+
  then have "\<exists>m'. copy_nonoverlapping copy_sample 0x10000 0x18000 (8 * 4) = Ok m'"
    by (rule copy_nonoverlapping_total) (simp_all add: apart_def)
  then show ?thesis
    using copy_sample_size by (auto simp: copy_object_def sample_mmtk_def)
qed

theorem copy_object_bytes_witness:
  "\<exists>s' bytes m1 t1 m2.
    copy_object sample_cfg sample_mmtk 0x10000 0 (copy_sample, sample_core []) = Ok (0x18000, s') \<and>
    size_for_copy sample_cfg copy_sample 0x10000 = Ok bytes \<and>
    alloc_copy sample_mmtk 0x10000 bytes (get_align_when_copied sample_cfg 0x10000)
      (get_align_offset_when_copied 0x10000) 0 (copy_sample, sample_core []) = (0x18000, m1, t1) \<and>
    s' = post_copy sample_mmtk 0x18000 bytes 0 (m2, t1) \<and>
    (\<forall>x. m2 x = (if unat (x - 0x18000) < unat bytes then m1 (0x10000 + (x - 0x18000)) else m1 x))"
proof -
  obtain s' where s': "copy_object sample_cfg sample_mmtk 0x10000 0 (copy_sample, sample_core []) = Ok (0x18000, s')"
    using copy_sample_total by blast
  then show ?thesis using copy_object_bytes [OF s'] by (intro exI [of _ s']) simp
qed


text \<open>The parts of an object that its size is computed from, in two memories.\<close>

lemma obj_size_transfer:
  assumes "obj_rtti c m obj = Ok rtti" "obj_rtti c m' obj' = Ok rtti"
    and "rtti_id c m' rtti = rtti_id c m rtti" "rtti_size c m' rtti = rtti_size c m rtti"
    and "is_array c m obj = Ok True \<Longrightarrow>
      array_length c m' obj' = array_length c m obj \<and> array_stride c m' obj' = array_stride c m obj"
  shows "obj_size c m' obj' = obj_size c m obj"
proof -
  have arr: "is_array c m' obj' = is_array c m obj"
    using assms(1-3) by (simp add: is_array_def)
  show ?thesis
  proof (cases "is_array c m obj = Ok True")
    case True
    then have "array_size c m' obj' = array_size c m obj"
      using assms(5) by (simp add: array_size_def)
    then show ?thesis using True arr by (simp add: obj_size_def as_array_object_def)
  next
    case False
    then show ?thesis
      using arr assms(1,2,4) by (auto simp: obj_size_def intro!: bindR_cong)
  qed
qed

text \<open>
  C12. Evacuation preserves the size: if mmtk-core tagged the header of a well-formed
  object with forwarding bits, and \<open>post_copy\<close> clears these bits in the copy (and writes
  nothing else), then \<open>size\<close> of the copy is the size the object had.
\<close>

theorem copy_preserves_size:
  assumes "alignment_log c k" "obj_rtti c m0 from = Ok rtti" "take_bit k rtti = 0"
    and "obj_size c m0 from = Ok n" "size_of (Object c) \<le> unat n"
    and "is_array c m0 from = Ok True \<longrightarrow> size_of (ArrayHeader c) \<le> unat n"
    and "take_bit k bits = bits" "store64 m0 from (rtti OR bits) = Ok m"
    and "apart from 8 rtti (size_of (Rtti c))" "apart dst (unat n) rtti (size_of (Rtti c))"
    and "alloc_copy mm from n (get_allocation_alignment c) 0 sem (m, t) = (dst, m, t1)"
    and "\<forall>m2 t2. load64 m2 dst = Ok (rtti OR bits) \<longrightarrow>
      store64 m2 dst rtti = Ok (fst (post_copy mm dst n sem (m2, t2)))"
    and "copy_object c mm from sem (m, t) = Ok (obj, m3, t3)"
  shows "obj = dst \<and> obj_size c m3 obj = Ok n"
proof -
  have size: "size_for_copy c m from = Ok n"
    by (rule size_for_copy_forwarded [OF assms(1-4,7,8,9)])
  then obtain m2 where m2: "copy_nonoverlapping m from dst (unat n) = Ok m2"
    and post: "obj = dst" "(m3, t3) = post_copy mm dst n sem (m2, t1)"
    using assms(11,13) by (auto simp: copy_object_def)
  have n: "unat n < 2 ^ 64" using unsigned_less [of n, where ?'a = nat] by simp
  note copied = load_copy [OF m2 n] and outside = load_copy_apart [OF m2 n]
  have "load64 m2 dst = Ok (rtti OR bits)"
    using copied(1) [of 0] load64_store64_same [OF assms(8)] assms(5) by (auto split: if_splits)
  then have st: "store64 m2 dst rtti = Ok m3"
    using assms(12) post(2) by (metis fst_conv)
  note tagged = header_store_frame [OF assms(8), where c = c]
    and cleared = header_store_frame [OF st, where c = c]
  have dst8: "apart dst 8 rtti (size_of (Rtti c))"
    using assms(5,10) by (auto intro: apart_shrink_left split: if_splits)
  have "obj_size c m3 dst = obj_size c m0 from"
  proof (rule obj_size_transfer [OF assms(2)])
    show "obj_rtti c m3 dst = Ok rtti" by (rule cleared(1))
    show "rtti_id c m3 rtti = rtti_id c m0 rtti" "rtti_size c m3 rtti = rtti_size c m0 rtti"
      using cleared(4,5) [OF dst8] tagged(4,5) [OF assms(9)]
        outside(2) apart_part [OF assms(10), of 16 4] apart_part [OF assms(10), of 8 4]
        apart_part [OF assms(10), of 32 4] apart_part [OF assms(10), of 24 4]
      by (auto simp: rtti_id_def rtti_size_def split: if_splits)
    show "array_length c m3 dst = array_length c m0 from \<and> array_stride c m3 dst = array_stride c m0 from"
      if "is_array c m0 from = Ok True"
      using that assms(6) cleared(2,3) tagged(2,3)
        copied(2) [of 16] copied(2) [of 20] copied(2) [of 8] copied(2) [of 12]
      by (auto simp: array_length_def array_stride_def split: if_splits)
  qed
  then show ?thesis using assms(4) post(1) by simp
qed

text \<open>An mmtk-core whose \<open>post_copy\<close> clears the two forwarding bits of the copy's header.\<close>

definition clearing_mmtk :: "core mmtk" where
  "clearing_mmtk = sample_mmtk\<lparr>post_copy := (\<lambda>obj bytes sem (m, t).
     (case bindR (load64 m obj) (\<lambda>w. store64 m obj (w AND NOT 3)) of Inl _ \<Rightarrow> m | Inr m' \<Rightarrow> m', t))\<rparr>"

lemma clearing_post_copy:
  assumes "load64 m2 0x18000 = Ok (0x1000 OR 3)"
  shows "store64 m2 0x18000 0x1000 = Ok (fst (post_copy clearing_mmtk 0x18000 32 0 (m2, t2)))"
  using assms load64_total_store [OF assms, of "0x1000"] by (auto simp: clearing_mmtk_def)

theorem copy_preserves_size_witness:
  "\<exists>m3 t3. copy_object sample_cfg clearing_mmtk 0x10000 0 (copy_sample, sample_core []) = Ok (0x18000, m3, t3) \<and>
    obj_size sample_cfg m3 0x18000 = Ok 32"
proof -
  obtain m3 t3 where s: "copy_object sample_cfg clearing_mmtk 0x10000 0 (copy_sample, sample_core [])
      = Ok (0x18000, m3, t3)"
    using copy_sample_total copy_sample_size
    by (auto simp: copy_object_def clearing_mmtk_def sample_mmtk_def)
  let ?ws = "rtti_words 0x1000 5 24 0x2000 @ obj_words 0x10000 0x1000 0 [1, 2] @
     [(0x18000, 0), (0x18008, 0), (0x18010, 0), (0x18018, 0)]"
  have tag: "store64 (word_mem ?ws) 0x10000 (0x1000 OR 3) = Ok copy_sample"
  proof -
    have "word_mem ((0x10000, 0x1003) # ?ws) = copy_sample"
      unfolding copy_sample_def by (rule ext) (simp add: word_mem_def rtti_words_def obj_words_def)
    then show ?thesis by (simp add: aligned8_def rtti_words_def obj_words_def)
  qed
  have "(0x18000 :: u64) = 0x18000 \<and> obj_size sample_cfg m3 0x18000 = Ok 32"
    by (rule copy_preserves_size [where k = 4 and ?m0.0 = "word_mem ?ws" and rtti = "0x1000" and bits = 3,
          OF _ _ _ _ _ _ _ tag _ _ _ _ s])
      (use clearing_post_copy in \<open>simp_all add: abi_defs apart_def clearing_mmtk_def sample_mmtk_def\<close>)
  with s show ?thesis by blast
qed

end
