(* ===== verification/Object_Scanning.thy ===== *)
theory Object_Scanning
  imports Vm
begin

text \<open>
  Scanning the fields of a heap object (\<open>src/mmtk/src/object_scanning.rs\<close>): the edges of an
  object are its reference fields (from the type's reference map, the referent of a weak
  reference left out) or the elements of an object array. \<open>scan_object\<close> hands them to an
  edge visitor; \<open>scan_object_and_trace_edges\<close> traces them and updates the slots.
\<close>

section \<open>Visiting edges\<close>

definition visit :: "'t mmtk \<Rightarrow> u64 \<Rightarrow> 't vm \<Rightarrow> 't vm" where
  "visit mm edge vm = vm\<lparr>core_state := visit_edge mm edge (core_state vm)\<rparr>"

text \<open>The lock words are read, but what they refer to is not visited (a \<open>todo\<close> in the source).\<close>

definition mmtk_scan_lock_words :: "'a upcalls_scheme \<Rightarrow> u64 \<Rightarrow> 't vm \<Rightarrow> 't vm res" where
  "mmtk_scan_lock_words c obj vm =
     (if uses_lockword c \<and> obj \<noteq> 0
      then bindR (obj_rtti c (memory vm) obj) (\<lambda>rtti.
           bindR (load64 (memory vm) (rtti_lock_word_addr c rtti)) (\<lambda>rtti_lock.
           bindR (obj_lock_word c (memory vm) obj) (\<lambda>object_lock. Ok vm)))
      else Ok vm)"

definition mmtk_scan_field :: "'a upcalls_scheme \<Rightarrow> 't mmtk \<Rightarrow> u64 \<Rightarrow> u64 \<Rightarrow> 't vm \<Rightarrow> 't vm res" where
  "mmtk_scan_field c mm edge fld vm =
     (if is_object mm vm fld
      then bindR (debug_assert c (Ok (is_object mm vm fld))) (\<lambda>_.
           bindR (debug_assert c (bindR (obj_rtti c (memory vm) fld) (\<lambda>rtti. Ok (rtti \<noteq> 0)))) (\<lambda>_.
           bindR (mmtk_scan_lock_words c fld vm) (\<lambda>vm.
           bindR (push_if_weak c fld vm) (\<lambda>vm.
           bindR (debug_assert c (bindR (obj_size c (memory vm) fld) (\<lambda>n. Ok (n \<noteq> 0)))) (\<lambda>_.
           Ok (visit mm edge vm))))))
      else Ok vm)"


section \<open>Tracing edges\<close>

text \<open>Both updates go to the lock word of the object's type, as the source has them.\<close>

definition trace_lock_word :: "'a upcalls_scheme \<Rightarrow> 't mmtk \<Rightarrow> u64 \<Rightarrow> u64 \<Rightarrow> 't vm \<Rightarrow> 't vm res" where
  "trace_lock_word c mm obj lock vm =
     (if field_is_inflated_lock lock
      then (case trace mm (field_alligned_lock_ref lock) vm of (traced, vm) \<Rightarrow>
            bindR (obj_rtti c (memory vm) obj) (\<lambda>rtti.
            store_vm (rtti_lock_word_addr c rtti) (field_inflate_lock_ref traced) vm))
      else Ok vm)"

definition mmtk_scan_lock_words_and_trace_edges ::
    "'a upcalls_scheme \<Rightarrow> 't mmtk \<Rightarrow> u64 \<Rightarrow> 't vm \<Rightarrow> 't vm res" where
  "mmtk_scan_lock_words_and_trace_edges c mm obj vm =
     (if uses_lockword c \<and> obj \<noteq> 0
      then bindR (obj_rtti c (memory vm) obj) (\<lambda>rtti.
           bindR (load64 (memory vm) (rtti_lock_word_addr c rtti)) (\<lambda>rtti_lock.
           bindR (trace_lock_word c mm obj rtti_lock vm) (\<lambda>vm.
           bindR (obj_lock_word c (memory vm) obj) (\<lambda>object_lock.
           trace_lock_word c mm obj object_lock vm))))
      else Ok vm)"

definition mmtk_scan_field_and_trace_edges ::
    "'a upcalls_scheme \<Rightarrow> 't mmtk \<Rightarrow> u64 \<Rightarrow> u64 \<Rightarrow> 't vm \<Rightarrow> 't vm res" where
  "mmtk_scan_field_and_trace_edges c mm edge fld vm =
     (if is_object mm vm fld
      then (case trace mm fld vm of (traced, vm) \<Rightarrow>
           bindR (debug_assert c (Ok (is_object mm vm traced))) (\<lambda>_.
           bindR (debug_assert c (bindR (obj_rtti c (memory vm) traced) (\<lambda>rtti. Ok (rtti \<noteq> 0)))) (\<lambda>_.
           bindR (mmtk_scan_lock_words_and_trace_edges c mm traced vm) (\<lambda>vm.
           bindR (push_if_weak c traced vm) (\<lambda>vm.
           bindR (debug_assert c (bindR (obj_size c (memory vm) traced) (\<lambda>n. Ok (n \<noteq> 0)))) (\<lambda>_.
           store_vm edge traced vm))))))
      else Ok vm)"


section \<open>Iterating over an object\<close>

text \<open>\<open>i64 -> i32\<close> and \<open>i32 -> usize\<close> by \<open>try_into().unwrap()\<close>.\<close>

definition i32_of_i64 :: "i64 \<Rightarrow> i32 res" where
  "i32_of_i64 x = (if - (2 ^ 31) \<le> sint x \<and> sint x < 2 ^ 31 then Ok (scast x) else Err Unwrap_failed)"

definition usize_of_i32 :: "i32 \<Rightarrow> nat res" where
  "usize_of_i32 x = (if 0 \<le> sint x then Ok (nat (sint x)) else Err Unwrap_failed)"

text \<open>One entry of the reference map, and one element; \<open>scan\<close> handles the slot.\<close>

definition field_step ::
    "'a upcalls_scheme \<Rightarrow> 't mmtk \<Rightarrow> (u64 \<Rightarrow> u64 \<Rightarrow> 't vm \<Rightarrow> 't vm res) \<Rightarrow> u64 \<Rightarrow> u64 \<Rightarrow> i64 \<Rightarrow>
     't vm \<Rightarrow> 't vm res" where
  "field_step c mm scan obj fields_addr off vm =
     bindR (i32_of_i64 off) (\<lambda>off32.
     bindR (is_referant_of_weak_reference c (memory vm) obj off32) (\<lambda>referant.
     if referant then Ok vm
     else bindR (ptr_offset fields_addr (sint off)) (\<lambda>edge.
          bindR (load64 (memory vm) edge) (\<lambda>node.
          if is_word_in_heap mm node then scan edge node vm else Ok vm))))"

definition element_step ::
    "'t mmtk \<Rightarrow> (u64 \<Rightarrow> u64 \<Rightarrow> 't vm \<Rightarrow> 't vm res) \<Rightarrow> u64 \<Rightarrow> nat \<Rightarrow> 't vm \<Rightarrow> 't vm res" where
  "element_step mm scan elems i vm =
     bindR (ptr_offset elems (int i)) (\<lambda>edge.
     bindR (load64 (memory vm) edge) (\<lambda>fld.
     if is_word_in_heap mm fld then scan edge fld vm else Ok vm))"

definition object_iterate ::
    "'a upcalls_scheme \<Rightarrow> 't mmtk \<Rightarrow> (u64 \<Rightarrow> u64 \<Rightarrow> 't vm \<Rightarrow> 't vm res) \<Rightarrow> u64 \<Rightarrow> 't vm \<Rightarrow> 't vm res" where
  "object_iterate c mm scan obj vm =
     bindR (obj_rtti c (memory vm) obj) (\<lambda>rtti.
     bindR (rtti_ref_map c (memory vm) rtti) (\<lambda>ptr_map.
     bindR (get_fields c obj) (\<lambda>fields_addr.
     ref_map_loop memory ptr_map (field_step c mm scan obj fields_addr) 0 vm)))"

definition array_iterate ::
    "'a upcalls_scheme \<Rightarrow> 't mmtk \<Rightarrow> (u64 \<Rightarrow> u64 \<Rightarrow> 't vm \<Rightarrow> 't vm res) \<Rightarrow> u64 \<Rightarrow> 't vm \<Rightarrow> 't vm res" where
  "array_iterate c mm scan arr vm =
     bindR (obj_rtti c (memory vm) arr) (\<lambda>rtti.
     bindR (rtti_id c (memory vm) rtti) (\<lambda>i.
     if i = get_object_array_id c
     then bindR (array_length c (memory vm) arr) (\<lambda>len.
          bindR (usize_of_i32 len) (\<lambda>n.
          bindR (add_u (dbg c) arr (of_nat (size_of (ArrayHeader c)))) (\<lambda>elems.
          foldR (element_step mm scan elems) [0..<n] vm)))
     else Ok vm))"

text \<open>The four methods of the trait \<open>ObjIterate\<close>: two loops, each with the two slot handlers.\<close>

definition object_obj_iterate :: "'a upcalls_scheme \<Rightarrow> 't mmtk \<Rightarrow> u64 \<Rightarrow> 't vm \<Rightarrow> 't vm res" where
  "object_obj_iterate c mm obj = object_iterate c mm (mmtk_scan_field c mm) obj"

definition object_obj_iterate_and_trace_edges ::
    "'a upcalls_scheme \<Rightarrow> 't mmtk \<Rightarrow> u64 \<Rightarrow> 't vm \<Rightarrow> 't vm res" where
  "object_obj_iterate_and_trace_edges c mm obj = object_iterate c mm (mmtk_scan_field_and_trace_edges c mm) obj"

definition array_obj_iterate :: "'a upcalls_scheme \<Rightarrow> 't mmtk \<Rightarrow> u64 \<Rightarrow> 't vm \<Rightarrow> 't vm res" where
  "array_obj_iterate c mm arr = array_iterate c mm (mmtk_scan_field c mm) arr"

definition array_obj_iterate_and_trace_edges ::
    "'a upcalls_scheme \<Rightarrow> 't mmtk \<Rightarrow> u64 \<Rightarrow> 't vm \<Rightarrow> 't vm res" where
  "array_obj_iterate_and_trace_edges c mm arr = array_iterate c mm (mmtk_scan_field_and_trace_edges c mm) arr"

definition obj_iterate :: "'a upcalls_scheme \<Rightarrow> 't mmtk \<Rightarrow> u64 \<Rightarrow> 't vm \<Rightarrow> 't vm res" where
  "obj_iterate c mm obj vm =
     bindR (is_array c (memory vm) obj) (\<lambda>b.
     if b then array_obj_iterate c mm (as_array_object obj) vm else object_obj_iterate c mm obj vm)"

definition obj_iterate_and_trace_edges :: "'a upcalls_scheme \<Rightarrow> 't mmtk \<Rightarrow> u64 \<Rightarrow> 't vm \<Rightarrow> 't vm res" where
  "obj_iterate_and_trace_edges c mm obj vm =
     bindR (is_array c (memory vm) obj) (\<lambda>b.
     if b then array_obj_iterate_and_trace_edges c mm (as_array_object obj) vm
     else object_obj_iterate_and_trace_edges c mm obj vm)"

text \<open>Both are one iteration, over the slot handler, which the proofs work with.\<close>

definition iterate ::
    "'a upcalls_scheme \<Rightarrow> 't mmtk \<Rightarrow> (u64 \<Rightarrow> u64 \<Rightarrow> 't vm \<Rightarrow> 't vm res) \<Rightarrow> u64 \<Rightarrow> 't vm \<Rightarrow> 't vm res" where
  "iterate c mm scan obj vm =
     bindR (is_array c (memory vm) obj) (\<lambda>b.
     if b then array_iterate c mm scan (as_array_object obj) vm else object_iterate c mm scan obj vm)"

lemma obj_iterate_eq: "obj_iterate c mm = iterate c mm (mmtk_scan_field c mm)"
  by (intro ext, unfold obj_iterate_def iterate_def array_obj_iterate_def object_obj_iterate_def) (rule refl)

lemma obj_iterate_and_trace_edges_eq:
  "obj_iterate_and_trace_edges c mm = iterate c mm (mmtk_scan_field_and_trace_edges c mm)"
  by (intro ext, unfold obj_iterate_and_trace_edges_def iterate_def array_obj_iterate_and_trace_edges_def
      object_obj_iterate_and_trace_edges_def) (rule refl)

definition scan_object :: "'a upcalls_scheme \<Rightarrow> 't mmtk \<Rightarrow> u64 \<Rightarrow> 't vm \<Rightarrow> 't vm res" where
  "scan_object c mm obj = obj_iterate c mm obj"

definition scan_object_and_trace_edges :: "'a upcalls_scheme \<Rightarrow> 't mmtk \<Rightarrow> u64 \<Rightarrow> 't vm \<Rightarrow> 't vm res" where
  "scan_object_and_trace_edges c mm obj = obj_iterate_and_trace_edges c mm obj"

text \<open>The methods of the \<open>Scanning\<close> trait (\<open>scanning.rs\<close> 428-442), which mmtk-core calls.\<close>

definition vm_scan_object :: "'a upcalls_scheme \<Rightarrow> 't mmtk \<Rightarrow> u64 \<Rightarrow> u64 \<Rightarrow> 't vm \<Rightarrow> 't vm res" where
  "vm_scan_object c mm tls obj = scan_object c mm obj"

definition vm_scan_object_and_trace_edges ::
    "'a upcalls_scheme \<Rightarrow> 't mmtk \<Rightarrow> u64 \<Rightarrow> u64 \<Rightarrow> 't vm \<Rightarrow> 't vm res" where
  "vm_scan_object_and_trace_edges c mm tls obj = scan_object_and_trace_edges c mm obj"

end
