(* ===== verification/Slot_Handlers.thy ===== *)
theory Slot_Handlers
  imports Object_Scanning
begin

text \<open>
  The two iterations over the slots of an object, for any handler of a slot: the slots of
  a plain object are its reference fields (without the referent of a weak reference),
  those of an array its elements. The locale \<open>slot_handler\<close> is what the iteration asks of
  a handler, namely to keep an invariant under which the object can be read; the
  visiting handler is its interpretation here.
\<close>

section \<open>Slots\<close>

definition ref_slots :: "'a upcalls_scheme \<Rightarrow> bool \<Rightarrow> u64 \<Rightarrow> i64 list \<Rightarrow> u64 list" where
  "ref_slots c weak fields_addr offs =
     map (\<lambda>off. fields_addr + 8 * off)
       (filter (\<lambda>off. \<not> (weak \<and> sint off = sint (get_weak_ref_field_offset c))) offs)"

definition elem_slots :: "u64 \<Rightarrow> nat \<Rightarrow> u64 list" where
  "elem_slots elems n = map (\<lambda>i. elems + 8 * of_nat i) [0..<n]"

lemma elem_slot_unat: "unat (elems :: u64) + 8 * n < 2 ^ 64 \<Longrightarrow> i < n \<Longrightarrow> unat (elems + 8 * of_nat i) = unat elems + 8 * i"
  by (simp add: unat_word_ariths unat_of_nat)

lemma elem_slots_distinct:
  assumes "unat elems + 8 * n < 2 ^ 64"
  shows "distinct (elem_slots elems n)"
  unfolding elem_slots_def distinct_map
proof
  show "inj_on (\<lambda>i. elems + 8 * of_nat i) (set [0..<n])"
  proof (rule inj_onI)
    fix i j assume ij: "i \<in> set [0..<n]" "j \<in> set [0..<n]" "elems + 8 * of_nat i = elems + 8 * of_nat j"
    then have "i < n" "j < n" by simp_all
    from elem_slot_unat [OF assms this(1), unfolded ij(3)] elem_slot_unat [OF assms this(2)]
    show "i = j" by linarith
  qed
qed simp

lemma elem_slots_aligned: "aligned8 elems \<Longrightarrow> a \<in> set (elem_slots elems n) \<Longrightarrow> aligned8 a"
  by (auto simp: elem_slots_def intro: aligned8_add)

text \<open>One slot, whatever is done with its content.\<close>

definition slot_step ::
    "'t mmtk \<Rightarrow> (u64 \<Rightarrow> u64 \<Rightarrow> 't vm \<Rightarrow> 't vm res) \<Rightarrow> u64 \<Rightarrow> 't vm \<Rightarrow> 't vm res" where
  "slot_step mm scan a vm =
     bindR (load64 (memory vm) a) (\<lambda>w. if is_word_in_heap mm w then scan a w vm else Ok vm)"

text \<open>Offsets of a reference map that lie inside the address space.\<close>

definition offsets_ok :: "u64 \<Rightarrow> i64 list \<Rightarrow> bool" where
  "offsets_ok fields_addr offs \<longleftrightarrow>
     list_all (\<lambda>off. 0 \<le> sint off \<and> sint off < 2 ^ 31 \<and> uint fields_addr + 8 * sint off < 2 ^ 64) offs"

lemma i32_of_i64_Ok: "0 \<le> sint x \<Longrightarrow> sint x < 2 ^ 31 \<Longrightarrow> i32_of_i64 x = Ok (scast x)"
  by (simp add: i32_of_i64_def)

lemma sint_scast_small: "0 \<le> sint (x :: i64) \<Longrightarrow> sint x < 2 ^ 31 \<Longrightarrow> sint (scast x :: i32) = sint x"
  by (simp add: signed_scast_eq signed_take_bit_int_eq_self)

lemma field_step_slot:
  assumes "is_weak_reference c (memory vm) obj = Ok weak" "offsets_ok fa offs" "off \<in> set offs"
  shows "field_step c mm scan obj fa off vm =
    (if weak \<and> sint off = sint (get_weak_ref_field_offset c) then Ok vm else slot_step mm scan (fa + 8 * off) vm)"
proof -
  have off: "0 \<le> sint off" "sint off < 2 ^ 31" "uint fa + 8 * sint off < 2 ^ 64"
    using assms(2,3) by (auto simp: offsets_ok_def list_all_iff)
  have "(scast off = get_weak_ref_field_offset c) \<longleftrightarrow> sint off = sint (get_weak_ref_field_offset c)"
    using sint_scast_small [OF off(1,2)] by (metis word_eq_iff_signed)
  moreover have "ptr_offset fa (sint off) = Ok (fa + 8 * off)"
    using off by (simp add: ptr_offset_def)
  ultimately show ?thesis
    using assms(1) off by (auto simp: field_step_def i32_of_i64_Ok is_referant_of_weak_reference_def slot_step_def)
qed

lemma element_step_slot:
  assumes "unat elems + 8 * n < 2 ^ 64" "n < 2 ^ 60" "i < n"
  shows "element_step mm scan elems i vm = slot_step mm scan (elems + 8 * of_nat i) vm"
  using ptr_offset_nat [of elems i] assms by (simp add: element_step_def slot_step_def)

text \<open>What the iteration reads of a plain object, and of an array.\<close>

definition plain_view ::
    "'a upcalls_scheme \<Rightarrow> mem \<Rightarrow> u64 \<Rightarrow> bool \<Rightarrow> u64 \<Rightarrow> u64 \<Rightarrow> i64 list \<Rightarrow> bool" where
  "plain_view c m obj weak p fields_addr offs \<longleftrightarrow>
     is_array c m obj = Ok False \<and> is_weak_reference c m obj = Ok weak \<and>
     get_fields c obj = Ok fields_addr \<and> offsets_ok fields_addr offs \<and>
     (\<exists>rtti. obj_rtti c m obj = Ok rtti \<and> rtti_ref_map c m rtti = Ok p) \<and> ref_map m p offs"

definition array_view :: "'a upcalls_scheme \<Rightarrow> mem \<Rightarrow> u64 \<Rightarrow> i32 \<Rightarrow> i32 \<Rightarrow> bool" where
  "array_view c m arr i len \<longleftrightarrow>
     is_array c m arr = Ok True \<and>
     (\<exists>rtti. obj_rtti c m arr = Ok rtti \<and> rtti_id c m rtti = Ok i) \<and> array_length c m arr = Ok len"


section \<open>The interface of a slot handler\<close>

locale slot_handler =
  fixes mm :: "'t mmtk" and scan :: "u64 \<Rightarrow> u64 \<Rightarrow> 't vm \<Rightarrow> 't vm res"
    and I :: "'t vm \<Rightarrow> bool" and slots :: "u64 set"
  assumes keeps: "a \<in> slots \<Longrightarrow> I vm \<Longrightarrow> load64 (memory vm) a = Ok w \<Longrightarrow> is_word_in_heap mm w \<Longrightarrow>
    scan a w vm = Ok vm' \<Longrightarrow> I vm'"
begin

lemma step_keeps: "a \<in> slots \<Longrightarrow> I vm \<Longrightarrow> slot_step mm scan a vm = Ok vm' \<Longrightarrow> I vm'"
  using keeps by (auto simp: slot_step_def split: if_splits)

lemma slots_keep: "foldR (slot_step mm scan) as vm = Ok vm' \<Longrightarrow> set as \<subseteq> slots \<Longrightarrow> I vm \<Longrightarrow> I vm'"
  by (erule foldR_invariant) (use step_keeps in blast)+

text \<open>The entries of a reference map are handled as the slots they name.\<close>

lemma field_keeps:
  assumes "is_weak_reference c (memory vm) obj = Ok weak" "offsets_ok fa offs" "set (ref_slots c weak fa offs) \<subseteq> slots"
    and "off \<in> set offs" "I vm" "field_step c mm scan obj fa off vm = Ok vm'"
  shows "I vm'"
  using assms(3-6) field_step_slot [OF assms(1,2,4), of mm scan] step_keeps [of "fa + 8 * off" vm vm']
  by (auto simp: ref_slots_def split: if_splits)

lemma fields_slots:
  assumes weak: "\<And>vm. I vm \<Longrightarrow> is_weak_reference c (memory vm) obj = Ok weak"
    and "offsets_ok fa offs" "set (ref_slots c weak fa offs) \<subseteq> slots" "I vm"
  shows "foldR (field_step c mm scan obj fa) offs vm = foldR (slot_step mm scan) (ref_slots c weak fa offs) vm"
proof -
  let ?P = "\<lambda>off. \<not> (weak \<and> sint off = sint (get_weak_ref_field_offset c))"
  let ?g = "\<lambda>off. if ?P off then slot_step mm scan (fa + 8 * off) else Ok"
  have field: "field_step c mm scan obj fa off t = ?g off t" if "off \<in> set offs" "I t" for off t
    using field_step_slot [OF weak [OF that(2)] assms(2) that(1), of mm scan] by auto
  have keep: "I t'" if "off \<in> set offs" "I t" "?g off t = Ok t'" for off t t'
    using field_keeps [OF weak [OF that(2)] assms(2,3) that(1,2)] field [OF that(1,2)] that(3) by metis
  have "foldR (field_step c mm scan obj fa) offs vm = foldR ?g offs vm"
    by (rule foldR_cong_inv [where I = I, OF \<open>I vm\<close> field keep])
  also have "\<dots> = foldR ?g (filter ?P offs) vm"
    by (rule foldR_filter) simp
  also have "\<dots> = foldR (slot_step mm scan) (ref_slots c weak fa offs) vm"
    unfolding ref_slots_def foldR_map
    by (rule foldR_cong_inv [where I = "\<lambda>_. True"]) auto
  finally show ?thesis .
qed

text \<open>An iteration over a plain object runs over its slots, whose headers the handler keeps.\<close>

lemma iterate_plain:
  assumes view: "\<And>vm. I vm \<Longrightarrow> plain_view c (memory vm) obj weak p fa offs"
    and sub: "set (ref_slots c weak fa offs) \<subseteq> slots" and "I vm"
  shows "iterate c mm scan obj vm = foldR (slot_step mm scan) (ref_slots c weak fa offs) vm"
proof -
  note v = view [unfolded plain_view_def]
  have weak: "is_weak_reference c (memory t) obj = Ok weak" if "I t" for t using v [OF that] by blast
  have ok: "offsets_ok fa offs" using v [OF \<open>I vm\<close>] by blast
  have "iterate c mm scan obj vm = ref_map_loop memory p (field_step c mm scan obj fa) 0 vm"
    using v [OF \<open>I vm\<close>] by (auto simp: iterate_def object_iterate_def)
  also have "\<dots> = foldR (field_step c mm scan obj fa) offs vm"
    by (rule ref_map_loop_foldR [where I = I]) (use v field_keeps [OF weak ok sub] \<open>I vm\<close> in blast)+
  also have "\<dots> = foldR (slot_step mm scan) (ref_slots c weak fa offs) vm"
    by (rule fields_slots [OF weak ok sub \<open>I vm\<close>])
  finally show ?thesis .
qed

lemma iterate_array:
  assumes view: "array_view c (memory vm) arr i len"
    and fits: "unat arr + size_of (ArrayHeader c) + 8 * nat (sint len) < 2 ^ 64"
  shows "iterate c mm scan arr vm =
    (if i \<noteq> get_object_array_id c then Ok vm
     else if sint len < 0 then Err Unwrap_failed
     else foldR (slot_step mm scan) (elem_slots (arr + of_nat (size_of (ArrayHeader c))) (nat (sint len))) vm)"
proof -
  let ?n = "nat (sint len)" and ?elems = "arr + of_nat (size_of (ArrayHeader c))"
  have n: "?n < 2 ^ 60" using nat_sint_less [of len] by simp
  have elems: "unat ?elems = unat arr + size_of (ArrayHeader c)"
    using fits by (simp add: unat_word_ariths)
  have "foldR (element_step mm scan ?elems) [0..<?n] vm = foldR (slot_step mm scan) (elem_slots ?elems ?n) vm"
    unfolding elem_slots_def foldR_map
    by (rule foldR_cong_inv [where I = "\<lambda>_. True"]) (use fits elems n in \<open>auto intro!: element_step_slot\<close>)
  then show ?thesis
    using view fits by (auto simp: iterate_def array_iterate_def array_view_def usize_of_i32_def as_array_object_def)
qed

end

lemma scan_field_memory: "mmtk_scan_field c mm a w vm = Ok vm' \<Longrightarrow> memory vm' = memory vm"
  by (auto simp: mmtk_scan_field_def mmtk_scan_lock_words_def push_if_weak_def weak_ref_stack_push_def
      visit_def split: if_splits)

interpretation visiting: slot_handler mm "mmtk_scan_field c mm" "\<lambda>vm. memory vm = m" UNIV
  for c mm m
  by unfold_locales (simp add: scan_field_memory)

end
