(* ===== verification/Object_Scan_Props.thy ===== *)
theory Object_Scan_Props
  imports Slot_Handlers
begin

text \<open>
  What scanning an object does, against a specification by slots: the slots of an
  object are the addresses of its reference fields or elements, its live edges are the
  slots that hold the address of a heap object. Visiting hands exactly the live edges to
  the visitor; tracing replaces exactly their contents.
\<close>

section \<open>Slots and live edges\<close>

definition live_ref :: "'t mmtk \<Rightarrow> 't \<Rightarrow> u64 \<Rightarrow> bool" where
  "live_ref mm t w \<longleftrightarrow> is_word_in_heap mm w \<and> is_mmtk_object mm t w"

fun live_edges :: "'t mmtk \<Rightarrow> mem \<Rightarrow> 't \<Rightarrow> u64 list \<Rightarrow> (u64 \<times> u64) list" where
  "live_edges mm m t [] = []"
| "live_edges mm m t (a # slots) =
     (case load64 m a of
        Inl e \<Rightarrow> live_edges mm m t slots
      | Inr w \<Rightarrow> (if live_ref mm t w then (a, w) # live_edges mm m t slots else live_edges mm m t slots))"

section \<open>Visiting\<close>

definition visit_all :: "'a upcalls_scheme \<Rightarrow> 't mmtk \<Rightarrow> (u64 \<times> u64) list \<Rightarrow> 't vm \<Rightarrow> 't vm" where
  "visit_all c mm es vm =
     vm\<lparr>core_state := fold (visit_edge mm) (map fst es) (core_state vm),
        weak_ref_stack := weak_ref_stack vm @ weak_of c (memory vm) (map snd es)\<rparr>"

text \<open>A visitor queues edges: which addresses are objects does not depend on it.\<close>

definition visitor_ok :: "'t mmtk \<Rightarrow> bool" where
  "visitor_ok mm \<longleftrightarrow> (\<forall>e t a. is_mmtk_object mm (visit_edge mm e t) a = is_mmtk_object mm t a)"

definition slots_ok :: "'a upcalls_scheme \<Rightarrow> 't mmtk \<Rightarrow> mem \<Rightarrow> 't \<Rightarrow> u64 list \<Rightarrow> bool" where
  "slots_ok c mm m t slots \<longleftrightarrow>
     (\<forall>a\<in>set slots. \<exists>w. load64 m a = Ok w \<and> (live_ref mm t w \<longrightarrow> (\<exists>rl ol. header_ok c m w rl ol)))"

lemma visit_all_Nil [simp]: "visit_all c mm [] vm = vm"
  by (simp add: visit_all_def weak_of_def)

lemma visit_all_Cons: "visit_all c mm (e # es) vm = visit_all c mm es (visit_all c mm [e] vm)"
  by (simp add: visit_all_def weak_of_def)

lemma visit_all_memory [simp]: "memory (visit_all c mm es vm) = memory vm"
  by (simp add: visit_all_def)

lemma scan_field_visits:
  assumes "is_object mm vm w" "header_ok c (memory vm) w rl ol"
  shows "mmtk_scan_field c mm a w vm = Ok (visit_all c mm [(a, w)] vm)"
  using assms by (auto simp: mmtk_scan_field_def header_ok_def debug_assert_def mmtk_scan_lock_words_def
      push_if_weak_def weak_ref_stack_push_def visit_def visit_all_def weak_of_def)

lemma visit_slots:
  assumes "visitor_ok mm" "slots_ok c mm (memory vm) t slots" "is_mmtk_object mm (core_state vm) = is_mmtk_object mm t"
  shows "foldR (slot_step mm (mmtk_scan_field c mm)) slots vm =
    Ok (visit_all c mm (live_edges mm (memory vm) t slots) vm)"
  using assms(2,3)
proof (induction slots arbitrary: vm)
  case Nil
  then show ?case by simp
next
  case (Cons a slots)
  obtain w where w: "load64 (memory vm) a = Ok w"
    "live_ref mm t w \<Longrightarrow> \<exists>rl ol. header_ok c (memory vm) w rl ol"
    using Cons.prems(1) by (auto simp: slots_ok_def)
  have rest: "slots_ok c mm (memory vm) t slots" using Cons.prems(1) by (simp add: slots_ok_def)
  show ?case
  proof (cases "live_ref mm t w")
    case False
    then have "slot_step mm (mmtk_scan_field c mm) a vm = Ok vm"
      using w(1) Cons.prems(2) by (auto simp: slot_step_def mmtk_scan_field_def is_object_def live_ref_def)
    then show ?thesis using False w(1) Cons.IH [OF rest Cons.prems(2)] by simp
  next
    case True
    let ?vm = "visit_all c mm [(a, w)] vm"
    obtain rl ol where "header_ok c (memory vm) w rl ol" using w(2) [OF True] by blast
    then have "slot_step mm (mmtk_scan_field c mm) a vm = Ok ?vm"
      using True w(1) Cons.prems(2) scan_field_visits [of mm vm w c rl ol a]
      by (auto simp: slot_step_def is_object_def live_ref_def)
    moreover have "is_mmtk_object mm (core_state ?vm) = is_mmtk_object mm t"
      using assms(1) Cons.prems(2) by (auto simp: visit_all_def visitor_ok_def fun_eq_iff)
    ultimately show ?thesis
      using w(1) Cons.IH [of ?vm] rest
      by (simp add: True visit_all_Cons [of c mm "(a, w)" "live_edges mm (memory vm) t slots"])
  qed
qed

lemma scan_plain_visits:
  assumes "visitor_ok mm" "plain_view c (memory vm) obj weak p fa offs"
    and "slots_ok c mm (memory vm) (core_state vm) (ref_slots c weak fa offs)"
  shows "scan_object c mm obj vm =
    Ok (visit_all c mm (live_edges mm (memory vm) (core_state vm) (ref_slots c weak fa offs)) vm)"
proof -
  have "iterate c mm (mmtk_scan_field c mm) obj vm =
      foldR (slot_step mm (mmtk_scan_field c mm)) (ref_slots c weak fa offs) vm"
    by (rule visiting.iterate_plain [where m = "memory vm"]) (use assms(2) in simp_all)
  then show ?thesis
    using visit_slots [OF assms(1,3) refl] by (simp add: scan_object_def obj_iterate_eq)
qed

text \<open>
  C4. Scanning a plain object visits exactly its live reference fields, once each and in
  the order of the reference map; the referent of a weak reference is not among them;
  the weak references it refers to are pushed; no memory is written.
\<close>

theorem scan_plain_object:
  assumes "visitor_ok mm" "plain_view c (memory vm) obj weak p fa offs"
    and "slots_ok c mm (memory vm) (core_state vm) (ref_slots c weak fa offs)"
  shows "scan_object c mm obj vm =
    Ok (visit_all c mm (live_edges mm (memory vm) (core_state vm) (ref_slots c weak fa offs)) vm)"
  by (rule scan_plain_visits [OF assms])

text \<open>
  A small graph: a plain object at \<open>0x10000\<close>, a weak reference at \<open>0x10040\<close> whose two
  fields (the first the referent) refer to it, and an object array at \<open>0x10080\<close>.
\<close>

definition graph_mem :: mem where
  "graph_mem = word_mem ([(0x2000, 0), (0x2008, 1), (0x2010, - 1)] @
     rtti_words 0x1000 5 24 0x2010 @ rtti_words 0x1100 30 32 0x2000 @ rtti_words 0x1200 12 0 0x2010 @
     obj_words 0x10000 0x1000 0 [0] @ obj_words 0x10040 0x1100 0 [0x10000, 0x10000] @
     array_words 0x10080 0x1200 2 8 [0x10040, 0])"

definition graph_vm :: "core vm" where
  "graph_vm = init_vm graph_mem (sample_core [0x10000, 0x10040, 0x10080])"

lemma graph_vm_simps [simp]:
  "memory graph_vm = graph_mem" "core_state graph_vm = sample_core [0x10000, 0x10040, 0x10080]"
  by (simp_all add: graph_vm_def)

lemma sample_visitor_ok [simp]: "visitor_ok sample_mmtk"
  by (simp add: visitor_ok_def sample_mmtk_def)

lemma sample_live:
  "live_ref sample_mmtk (sample_core [0x10000, 0x10040, 0x10080]) w \<longleftrightarrow> w = 0x10000 \<or> w = 0x10040 \<or> w = 0x10080"
  by (auto simp: live_ref_def is_word_in_heap_def sample_mmtk_def sample_core_def)

lemma graph_headers:
  "header_ok sample_cfg graph_mem 0x10000 0 0" "header_ok sample_cfg graph_mem 0x10040 0 0"
  by (auto simp: header_ok_def graph_mem_def abi_defs)

lemma graph_loads:
  "load64 graph_mem 0x10058 = Ok 0x10000" "load64 graph_mem 0x10098 = Ok 0x10040" "load64 graph_mem 0x100A0 = Ok 0"
  by (simp_all add: graph_mem_def abi_defs array_words_def)

lemma graph_plain_view: "plain_view sample_cfg graph_mem 0x10040 True 0x2000 0x10050 [0, 1]"
proof -
  have "ref_map graph_mem 0x2000 [0, 1]"
    by (simp add: ref_map_def graph_mem_def abi_defs LAST_FIELD_OFFSET_def)
  moreover have "obj_rtti sample_cfg graph_mem 0x10040 = Ok 0x1100" "rtti_ref_map sample_cfg graph_mem 0x1100 = Ok 0x2000"
    by (simp_all add: graph_mem_def abi_defs)
  ultimately show ?thesis
    by (auto simp: plain_view_def offsets_ok_def get_fields_def graph_mem_def abi_defs)
qed

theorem scan_plain_object_witness:
  "scan_object sample_cfg sample_mmtk 0x10040 graph_vm =
     Ok (visit_all sample_cfg sample_mmtk [(0x10058, 0x10000)] graph_vm)"
proof -
  have slots: "ref_slots sample_cfg True 0x10050 [0, 1] = [0x10058]"
    by (simp add: ref_slots_def)
  show ?thesis
    using scan_plain_object [where mm = sample_mmtk and c = sample_cfg and vm = graph_vm and obj = "0x10040"
        and weak = True and p = "0x2000" and fa = "0x10050" and offs = "[0, 1]"] graph_plain_view graph_headers(1)
    by (auto simp: slots slots_ok_def graph_loads sample_live)
qed

lemma scan_Ok_terminated:
  assumes "is_array c (memory vm) obj = Ok False" "scan_object c mm obj vm = Ok vm'"
  shows "memory vm' = memory vm \<and>
    (\<exists>rtti p fa offs. obj_rtti c (memory vm) obj = Ok rtti \<and> rtti_ref_map c (memory vm) rtti = Ok p \<and>
      get_fields c obj = Ok fa \<and> ref_map (memory vm) p offs \<and>
      (\<forall>off\<in>set offs. - (2 ^ 31) \<le> sint off \<and> sint off < 2 ^ 31))"
proof -
  obtain rtti p fa where hdr: "obj_rtti c (memory vm) obj = Ok rtti" "rtti_ref_map c (memory vm) rtti = Ok p"
    "get_fields c obj = Ok fa"
    and run: "ref_map_loop memory p (field_step c mm (mmtk_scan_field c mm) obj fa) 0 vm = Ok vm'"
    using assms by (auto simp: scan_object_def obj_iterate_eq iterate_def object_iterate_def)
  have field: "memory t' = memory t \<and> - (2 ^ 31) \<le> sint off \<and> sint off < 2 ^ 31"
    if "field_step c mm (mmtk_scan_field c mm) obj fa off t = Ok t'" for off t t'
    using that by (auto simp: field_step_def i32_of_i64_def scan_field_memory split: if_splits)
  have "memory vm' = memory vm" by (rule ref_map_loop_terminated(1) [OF run, where Q = "\<lambda>off. True"]) (use field in blast)
  moreover obtain offs where "ref_map (memory vm) p offs" "list_all (\<lambda>off. - (2 ^ 31) \<le> sint off \<and> sint off < 2 ^ 31) offs"
    using ref_map_loop_terminated(2) [OF run, where Q = "\<lambda>off. - (2 ^ 31) \<le> sint off \<and> sint off < 2 ^ 31"] field
    by blast
  ultimately show ?thesis using hdr by (auto simp: list_all_iff)
qed

text \<open>The entry behind a prefix of a reference map that stops the scan, and how.\<close>

definition map_stop :: "mem \<Rightarrow> u64 \<Rightarrow> err option" where
  "map_stop m a =
     (case load64 m a of
        Inl e \<Rightarrow> Some e
      | Inr off \<Rightarrow>
          if off = LAST_FIELD_OFFSET \<or> - (2 ^ 31) \<le> sint off \<and> sint off < 2 ^ 31 then None else Some Unwrap_failed)"

definition plain_prefix ::
    "'a upcalls_scheme \<Rightarrow> mem \<Rightarrow> u64 \<Rightarrow> bool \<Rightarrow> u64 \<Rightarrow> u64 \<Rightarrow> i64 list \<Rightarrow> bool" where
  "plain_prefix c m obj weak p fields_addr offs \<longleftrightarrow>
     is_weak_reference c m obj = Ok weak \<and> get_fields c obj = Ok fields_addr \<and> offsets_ok fields_addr offs \<and>
     (\<exists>rtti. obj_rtti c m obj = Ok rtti \<and> rtti_ref_map c m rtti = Ok p) \<and> map_prefix m p offs"

lemma scan_stopped:
  assumes "is_array c (memory vm) obj = Ok False" "visitor_ok mm" "plain_prefix c (memory vm) obj weak p fa offs"
    and "slots_ok c mm (memory vm) (core_state vm) (ref_slots c weak fa offs)"
    and "map_stop (memory vm) (p + 8 * of_nat (length offs)) = Some e"
  shows "scan_object c mm obj vm = Err e"
proof -
  let ?body = "field_step c mm (mmtk_scan_field c mm) obj fa" and ?n = "length offs"
  note v = assms(3) [unfolded plain_prefix_def]
  have weak: "is_weak_reference c (memory t) obj = Ok weak" if "memory t = memory vm" for t :: "'b vm" using v that by simp
  have ok: "offsets_ok fa offs" using v by blast
  have "scan_object c mm obj vm = ref_map_loop memory p ?body (int 0) vm"
    using v assms(1) by (auto simp: scan_object_def obj_iterate_eq iterate_def object_iterate_def)
  also have "\<dots> = bindR (foldR ?body (drop 0 offs) vm) (ref_map_loop memory p ?body (int ?n))"
  proof (rule ref_map_loop_prefix [where I = "\<lambda>t. memory t = memory vm"])
    fix off t t' assume "off \<in> set offs" "memory t = memory vm" "?body off t = Ok t'"
    then show "memory t' = memory vm" using visiting.field_keeps [OF weak ok subset_UNIV] by blast
  qed (use v in simp_all)
  also have "foldR ?body (drop 0 offs) vm = foldR (slot_step mm (mmtk_scan_field c mm)) (ref_slots c weak fa offs) vm"
    unfolding drop_0 by (rule visiting.fields_slots [where m = "memory vm", OF weak ok]) simp_all
  also have "\<dots> = Ok (visit_all c mm (live_edges mm (memory vm) (core_state vm) (ref_slots c weak fa offs)) vm)"
    by (rule visit_slots [OF assms(2,4) refl])
  also have "ptr_offset p (int ?n) = Ok (p + 8 * of_nat ?n)"
    using v by (intro ptr_offset_nat) (simp_all add: map_prefix_def)
  then have "ref_map_loop memory p ?body (int ?n) t = Err e" if "memory t = memory vm" for t
    using assms(5) that
    by (subst ref_map_loop.simps) (auto simp: map_stop_def field_step_def i32_of_i64_def split: sum.splits if_splits)
  then have "bindR (Ok (visit_all c mm (live_edges mm (memory vm) (core_state vm) (ref_slots c weak fa offs)) vm))
      (ref_map_loop memory p ?body (int ?n)) = Err e"
    by simp
  finally show ?thesis .
qed

text \<open>
  C16. Scanning a plain object walks its reference map to the end of it, wherever that is. If the scan
  returns, the map has a terminator and its entries fit an \<open>i32\<close>, and nothing was written. If behind some
  entries comes one that cannot be read (the end of mapped memory), the scan ends in that access; if one
  comes that is no \<open>i32\<close>, it panics.
\<close>

theorem scan_returns_at_terminator:
  assumes "is_array c (memory vm) obj = Ok False"
  shows "(\<forall>vm'. scan_object c mm obj vm = Ok vm' \<longrightarrow> memory vm' = memory vm \<and>
      (\<exists>rtti p fa offs. obj_rtti c (memory vm) obj = Ok rtti \<and> rtti_ref_map c (memory vm) rtti = Ok p \<and>
        get_fields c obj = Ok fa \<and> ref_map (memory vm) p offs \<and>
        (\<forall>off\<in>set offs. - (2 ^ 31) \<le> sint off \<and> sint off < 2 ^ 31))) \<and>
    (\<forall>weak p fa offs e. visitor_ok mm \<longrightarrow> plain_prefix c (memory vm) obj weak p fa offs \<longrightarrow>
      slots_ok c mm (memory vm) (core_state vm) (ref_slots c weak fa offs) \<longrightarrow>
      map_stop (memory vm) (p + 8 * of_nat (length offs)) = Some e \<longrightarrow> scan_object c mm obj vm = Err e)"
  using scan_Ok_terminated [OF assms] scan_stopped [OF assms] by blast

text \<open>
  Two objects whose map starts with one entry: for the first the memory ends behind it, for the second an
  entry follows that is no \<open>i32\<close>.
\<close>

definition endless_mem :: "u64 list \<Rightarrow> mem" where
  "endless_mem ws = word_mem ([(0x2000, 0)] @ map (Pair 0x2008) ws @ rtti_words 0x1000 5 24 0x2000 @ obj_words 0x10000 0x1000 0 [0])"

lemma endless_prefix:
  assumes "ws = [] \<or> ws = [0x80000000]"
  shows "is_array sample_cfg (endless_mem ws) 0x10000 = Ok False"
    and "plain_prefix sample_cfg (endless_mem ws) 0x10000 False 0x2000 0x10010 [0]"
    and "load64 (endless_mem ws) 0x10010 = Ok 0"
    and "load64 (endless_mem ws) 0x2008 = (if ws = [] then Err Segv else Ok 0x80000000)"
  using assms
  by (auto simp: endless_mem_def abi_defs load64_word_mem plain_prefix_def map_prefix_def get_fields_def offsets_ok_def
      LAST_FIELD_OFFSET_def)

theorem scan_returns_at_terminator_witness:
  "scan_object sample_cfg sample_mmtk 0x10000 (init_vm (endless_mem []) (sample_core [])) = Err Segv \<and>
   scan_object sample_cfg sample_mmtk 0x10000 (init_vm (endless_mem [0x80000000]) (sample_core [])) = Err Unwrap_failed"
proof -
  have slots: "ref_slots sample_cfg False 0x10010 [0] = [0x10010]" by (simp add: ref_slots_def)
  have "\<not> live_ref sample_mmtk (sample_core []) 0"
    by (simp add: live_ref_def sample_mmtk_def sample_core_def)
  then have "scan_object sample_cfg sample_mmtk 0x10000 (init_vm (endless_mem ws) (sample_core [])) = Err e"
    if "ws = [] \<and> e = Segv \<or> ws = [0x80000000] \<and> e = Unwrap_failed" for ws e
    using scan_returns_at_terminator [of sample_cfg "init_vm (endless_mem ws) (sample_core [])" "0x10000" sample_mmtk] that
      endless_prefix [of ws]
    by (force simp: slots slots_ok_def map_stop_def LAST_FIELD_OFFSET_def)
  then show ?thesis by blast
qed

text \<open>
  C17. Scanning an object array visits exactly its live elements, in order; an array of
  another element type has no edges; a negative length of an object array panics.
\<close>

theorem scan_object_array:
  assumes "visitor_ok mm" "array_view c (memory vm) arr i len"
    and "unat arr + size_of (ArrayHeader c) + 8 * nat (sint len) < 2 ^ 64"
    and "elems = arr + of_nat (size_of (ArrayHeader c))"
    and "slots_ok c mm (memory vm) (core_state vm) (elem_slots elems (nat (sint len)))"
  shows "scan_object c mm arr vm =
    (if i \<noteq> get_object_array_id c then Ok vm
     else if sint len < 0 then Err Unwrap_failed
     else Ok (visit_all c mm (live_edges mm (memory vm) (core_state vm) (elem_slots elems (nat (sint len)))) vm))"
  by (simp only: scan_object_def obj_iterate_eq visiting.iterate_array [OF assms(2,3)] assms(4) [symmetric]
      visit_slots [OF assms(1,5) refl])

theorem scan_object_array_witness:
  "scan_object sample_cfg sample_mmtk 0x10080 graph_vm =
     Ok (visit_all sample_cfg sample_mmtk [(0x10098, 0x10040)] graph_vm)"
proof -
  have slots: "elem_slots 0x10098 2 = [0x10098, 0x100A0]"
    by (simp add: elem_slots_def upt_conv_Cons numeral_2_eq_2)
  have "array_view sample_cfg graph_mem 0x10080 12 2"
    by (auto simp: array_view_def graph_mem_def abi_defs array_words_def)
  then show ?thesis
    using scan_object_array [where mm = sample_mmtk and c = sample_cfg and vm = graph_vm and arr = "0x10080"
        and i = 12 and len = 2 and elems = "0x10098"] graph_headers(2)
    by (auto simp: slots slots_ok_def graph_loads sample_live)
qed


section \<open>Lock words\<close>

text \<open>
  C26. Tracing the inflated lock word of an object writes the monitor's new address to the
  lock word of the object's type: the type then refers to that monitor, and the object
  keeps the old address.
\<close>

theorem monitor_goes_to_type:
  assumes "uses_lockword c" "obj \<noteq> 0"
    and "obj_rtti c (memory vm) obj = Ok rtti" "obj_rtti c m1 obj = Ok rtti"
    and "load64 (memory vm) (rtti_lock_word_addr c rtti) = Ok rl" "\<not> field_is_inflated_lock rl"
    and "obj_lock_word c (memory vm) obj = Ok ol" "field_is_inflated_lock ol"
    and "trace_object mm (field_alligned_lock_ref ol) (memory vm, core_state vm) = (traced, m1, t1)"
    and "load64 m1 (rtti_lock_word_addr c rtti) = Ok rl" "obj_lock_word c m1 obj = Ok ol"
    and "apart (rtti_lock_word_addr c rtti) 8 (field (Object c) ''lock_word'' obj) 8"
  shows "\<exists>vm'. mmtk_scan_lock_words_and_trace_edges c mm obj vm = Ok vm' \<and>
    load64 (memory vm') (rtti_lock_word_addr c rtti) = Ok (field_inflate_lock_ref traced) \<and>
    obj_lock_word c (memory vm') obj = Ok ol"
proof -
  obtain m2 where m2: "store64 m1 (rtti_lock_word_addr c rtti) (field_inflate_lock_ref traced) = Ok m2"
    using load64_total_store [OF assms(10)] by blast
  then have "mmtk_scan_lock_words_and_trace_edges c mm obj vm = Ok (vm\<lparr>memory := m2, core_state := t1\<rparr>)"
    using assms by (simp add: mmtk_scan_lock_words_and_trace_edges_def trace_lock_word_def trace_def store_vm_def)
  moreover have "obj_lock_word c m2 obj = Ok ol"
    using load64_store64_apart [OF m2 assms(12)] assms(11) by (simp add: obj_lock_word_def)
  ultimately show ?thesis
    using load64_store64_same [OF m2] by simp
qed

theorem monitor_goes_to_type_witness:
  "\<exists>vm'. mmtk_scan_lock_words_and_trace_edges sample_cfg sample_mmtk 0x10020
       (init_vm (word_mem (rtti_words 0x1000 5 24 0x2000 @ obj_words 0x10020 0x1000 (0x10000 OR 1) [0]))
         ((sample_core [0x10000])\<lparr>forwarded := [(0x10000, 0x100C0)]\<rparr>)) = Ok vm' \<and>
    load64 (memory vm') 0x1008 = Ok (field_inflate_lock_ref 0x100C0) \<and>
    obj_lock_word sample_cfg (memory vm') 0x10020 = Ok 0x10001"
proof -
  have "rtti_lock_word_addr sample_cfg 0x1000 = 0x1008" by (simp add: rtti_lock_word_addr_def)
  then show ?thesis
    by (rule subst) (rule monitor_goes_to_type [where rl = 0],
        simp_all add: abi_defs lock_defs sample_mmtk_def sample_core_def apart_def, simp_all add: abi_defs)
qed

end
