(* ===== verification/Evacuation.thy ===== *)
theory Evacuation
  imports Object_Model Object_Scan_Props
begin

text \<open>
  From copying to scanning: after an object was evacuated while mmtk-core kept forwarding
  bits in its header, the copy has the words of the original, so that it is scanned like
  the original, with every edge displaced by the distance of the move.
\<close>

section \<open>The words of the copy\<close>

text \<open>
  \<open>evacuation c k mm m0 from rtti n bits m dst sem t t1\<close>: the circumstances of a copy. In \<open>m0\<close> the
  object has a clean header, \<open>m\<close> is \<open>m0\<close> with the header tagged; the allocator gives \<open>dst\<close>
  for \<open>n\<close> bytes and \<open>post_copy\<close> clears the tag of the copy.
\<close>

definition evacuation where
  "evacuation c k mm m0 from rtti n bits m dst sem t t1 \<longleftrightarrow>
     alignment_log c k \<and> obj_rtti c m0 from = Ok rtti \<and> take_bit k rtti = 0 \<and>
     obj_size c m0 from = Ok n \<and> size_of (Object c) \<le> unat n \<and>
     take_bit k bits = bits \<and> store64 m0 from (rtti OR bits) = Ok m \<and>
     apart from 8 rtti (size_of (Rtti c)) \<and> apart dst (unat n) rtti (size_of (Rtti c)) \<and>
     alloc_copy mm from n (get_allocation_alignment c) 0 sem (m, t) = (dst, m, t1) \<and>
     (\<forall>m2 t2. load64 m2 dst = Ok (rtti OR bits) \<longrightarrow>
       store64 m2 dst rtti = Ok (fst (post_copy mm dst n sem (m2, t2))))"

lemma evacuation_words:
  assumes ev: "evacuation c k mm m0 from rtti n bits m dst sem t t1"
    and run: "copy_object c mm from sem (m, t) = Ok (obj, m3, t3)"
  shows "obj = dst" "load64 m3 dst = Ok rtti"
    and "8 \<le> j \<Longrightarrow> j + 8 \<le> unat n \<Longrightarrow> load64 m3 (dst + of_nat j) = load64 m0 (from + of_nat j)"
    and "apart dst (unat n) b 8 \<Longrightarrow> apart from 8 b 8 \<Longrightarrow> load64 m3 b = load64 m0 b"
    and "apart dst (unat n) b 4 \<Longrightarrow> apart from 8 b 4 \<Longrightarrow> load32 m3 b = load32 m0 b"
proof -
  note e = ev [unfolded evacuation_def]
  have size: "size_for_copy c m from = Ok n"
    using e by (intro size_for_copy_forwarded [where k = k and m = m0 and rtti = rtti and bits = bits]) auto
  then obtain m2 where m2: "copy_nonoverlapping m from dst (unat n) = Ok m2"
    and post: "obj = dst" "(m3, t3) = post_copy mm dst n sem (m2, t1)"
    using e run by (auto simp: copy_object_def)
  have n: "unat n < 2 ^ 64" using unsigned_less [of n, where ?'a = nat] by simp
  have n8: "8 \<le> unat n" using e by (auto split: if_splits)
  note copied = load_copy [OF m2 n] and outside = load_copy_apart [OF m2 n]
  have tag: "store64 m0 from (rtti OR bits) = Ok m" using e by blast
  have "load64 m2 dst = Ok (rtti OR bits)"
    using copied(1) [of 0] load64_store64_same [OF tag] n8 by simp
  then have st: "store64 m2 dst rtti = Ok m3"
    using e post(2) by (metis fst_conv)
  show "obj = dst" by (rule post(1))
  show "load64 m3 dst = Ok rtti" by (rule load64_store64_same [OF st])
  show "load64 m3 (dst + of_nat j) = load64 m0 (from + of_nat j)" if j: "8 \<le> j" "j + 8 \<le> unat n"
  proof -
    have ap: "apart a 8 (a + of_nat j) 8" for a :: u64
      using apart_distance [of 8 j 8 a] j n by simp
    show ?thesis
      using load64_store64_apart [OF st ap] load64_store64_apart [OF tag ap] copied(1) [OF j(2)] by simp
  qed
  show "load64 m3 b = load64 m0 b" if b: "apart dst (unat n) b 8" "apart from 8 b 8"
    using load64_store64_apart [OF st apart_shrink_left [OF b(1) n8]] load64_store64_apart [OF tag b(2)]
      outside(1) [OF b(1)] by simp
  show "load32 m3 b = load32 m0 b" if b: "apart dst (unat n) b 4" "apart from 8 b 4"
    using load32_store64_apart [OF st apart_shrink_left [OF b(1) n8]] load32_store64_apart [OF tag b(2)]
      outside(2) [OF b(1)] by simp
qed


section \<open>The view of the copy\<close>

lemma ref_map_transfer:
  assumes "ref_map m p offs" "\<And>i. i \<le> length offs \<Longrightarrow> load64 m' (p + 8 * of_nat i) = load64 m (p + 8 * of_nat i)"
  shows "ref_map m' p offs"
proof -
  have "ref_map_from m' p offs" if "ref_map_from m p offs"
    "\<And>i. i \<le> length offs \<Longrightarrow> load64 m' (p + 8 * of_nat i) = load64 m (p + 8 * of_nat i)" for p
    using that
  proof (induction offs arbitrary: p)
    case Nil
    then show ?case using Nil.prems(2) [of 0] by simp
  next
    case (Cons off offs)
    have "load64 m' (p + 8 + 8 * of_nat i) = load64 m (p + 8 + 8 * of_nat i)" if "i \<le> length offs" for i
      using Cons.prems(2) [of "Suc i"] that by (simp add: algebra_simps)
    then show ?case using Cons.IH [of "p + 8"] Cons.prems(1) Cons.prems(2) [of 0] by simp
  qed
  then show ?thesis using assms by (simp add: ref_map_def)
qed

text \<open>The reference fields lie inside the \<open>n\<close> bytes of the object.\<close>

definition fields_inside :: "'a build_scheme \<Rightarrow> u64 \<Rightarrow> i64 list \<Rightarrow> bool" where
  "fields_inside c n offs \<longleftrightarrow>
     (\<forall>off\<in>set offs. 0 \<le> sint off \<and> size_of (Object c) + 8 * nat (sint off) + 8 \<le> unat n)"

lemma get_fields_at:
  assumes "unat obj + size_of (Object c) < 2 ^ 64"
  shows "get_fields c obj = Ok (obj + of_nat (size_of (Object c)))"
  using assms by (auto simp: get_fields_def unat_word_ariths split: if_splits)

text \<open>Fields inside an object stay inside wherever the object is put.\<close>

lemma offsets_ok_moved:
  assumes "fields_inside c n offs" "size_of (Object c) \<le> unat n" "unat dst + unat n < 2 ^ 64"
    and "offsets_ok fa offs"
  shows "offsets_ok (dst + of_nat (size_of (Object c))) offs"
  unfolding offsets_ok_def list_all_iff
proof
  fix off assume off: "off \<in> set offs"
  have "unat (dst + of_nat (size_of (Object c))) = unat dst + size_of (Object c)"
    using assms(2,3) by (auto simp: unat_word_ariths split: if_splits)
  then have "uint (dst + of_nat (size_of (Object c))) = int (unat dst + size_of (Object c))"
    by (simp only: uint_nat)
  moreover have in_n: "size_of (Object c) + 8 * nat (sint off) + 8 \<le> unat n" "0 \<le> sint off"
    using assms(1) off by (simp_all only: fields_inside_def)
  moreover have "int (size_of (Object c)) + 8 * sint off + 8 \<le> int (unat n)"
    using in_n by (simp only: nat_le_iff flip: of_nat_le_iff [where 'a = int])
  moreover have "int (unat dst) + int (unat n) < 2 ^ 64"
    using of_nat_less_iff [where 'a = int, of "unat dst + unat n" "2 ^ 64"] assms(3)
    by (simp only: of_nat_add of_nat_power of_nat_numeral)
  moreover have "sint off < 2 ^ 31" using assms(4) off by (auto simp: offsets_ok_def list_all_iff)
  ultimately show "0 \<le> sint off \<and> sint off < 2 ^ 31 \<and>
      uint (dst + of_nat (size_of (Object c))) + 8 * sint off < 2 ^ 64"
    by (auto split: if_splits)
qed

lemma evacuated_view:
  assumes ev: "evacuation c k mm m0 from rtti n bits m dst sem t t1"
    and run: "copy_object c mm from sem (m, t) = Ok (obj, m3, t3)"
    and view: "plain_view c m0 from weak p (from + of_nat (size_of (Object c))) offs"
    and inside: "fields_inside c n offs" "unat dst + unat n < 2 ^ 64"
    and map_apart: "apart dst (unat n) p (8 * (length offs + 1))" "apart from 8 p (8 * (length offs + 1))"
  shows "plain_view c m3 dst weak p (dst + of_nat (size_of (Object c))) offs"
    and "off \<in> set offs \<Longrightarrow> load64 m3 (dst + of_nat (size_of (Object c)) + 8 * off) =
      load64 m0 (from + of_nat (size_of (Object c)) + 8 * off)"
proof -
  note words = evacuation_words [OF ev run]
  have rtti: "obj_rtti c m0 from = Ok rtti" "apart dst (unat n) rtti (size_of (Rtti c))"
    "apart from 8 rtti (size_of (Rtti c))" "size_of (Object c) \<le> unat n"
    using ev by (auto simp: evacuation_def)
  have rtti3: "obj_rtti c m3 dst = Ok rtti" using words(2) by (simp add: obj_rtti_def)
  have id: "rtti_id c m3 rtti = rtti_id c m0 rtti"
    using words(5) apart_part [OF rtti(2), of 16 4] apart_part [OF rtti(2), of 8 4]
      apart_part [OF rtti(3), of 16 4] apart_part [OF rtti(3), of 8 4]
    by (auto simp: rtti_id_def split: if_splits)
  have map: "rtti_ref_map c m3 rtti = rtti_ref_map c m0 rtti"
    using words(4) apart_part [OF rtti(2), of 40 8] apart_part [OF rtti(2), of 32 8]
      apart_part [OF rtti(3), of 40 8] apart_part [OF rtti(3), of 32 8]
    by (auto simp: rtti_ref_map_def split: if_splits)
  have "ref_map m3 p offs"
  proof (rule ref_map_transfer)
    show "ref_map m0 p offs" using view by (simp add: plain_view_def)
    show "load64 m3 (p + 8 * of_nat i) = load64 m0 (p + 8 * of_nat i)" if "i \<le> length offs" for i
      using that apart_part [OF map_apart(1), of "8 * i" 8] apart_part [OF map_apart(2), of "8 * i" 8]
      by (intro words(4)) simp_all
  qed
  moreover have "is_array c m3 dst = is_array c m0 from" "is_weak_reference c m3 dst = is_weak_reference c m0 from"
    using rtti(1) rtti3 id by (simp_all add: is_array_def is_weak_reference_def)
  moreover have "get_fields c dst = Ok (dst + of_nat (size_of (Object c)))"
    using rtti(4) inside(2) by (intro get_fields_at) simp
  moreover have "offsets_ok (dst + of_nat (size_of (Object c))) offs"
    by (rule offsets_ok_moved [OF inside(1) rtti(4) inside(2)]) (use view in \<open>unfold plain_view_def, blast\<close>)
  ultimately show "plain_view c m3 dst weak p (dst + of_nat (size_of (Object c))) offs"
    using view rtti(1) rtti3 map by (auto simp: plain_view_def)
  show "load64 m3 (dst + of_nat (size_of (Object c)) + 8 * off) =
      load64 m0 (from + of_nat (size_of (Object c)) + 8 * off)" if off: "off \<in> set offs"
  proof -
    let ?j = "size_of (Object c) + 8 * nat (sint off)"
    have j: "8 \<le> ?j" "?j + 8 \<le> unat n" "0 \<le> sint off"
      using inside(1) off by (auto simp: fields_inside_def)
    have "of_nat (nat (sint off)) = off" using j(3) by simp
    then have "a + of_nat ?j = a + of_nat (size_of (Object c)) + 8 * off" for a
      by (simp only: of_nat_add of_nat_mult of_nat_numeral add.assoc)
    then show ?thesis using words(3) [OF j(1,2)] by (simp only:)
  qed
qed


section \<open>The edges of the copy\<close>

lemma ref_slots_shift: "ref_slots c weak (fa + d) offs = map (\<lambda>a. a + d) (ref_slots c weak fa offs)"
  by (simp add: ref_slots_def algebra_simps)

lemma live_edges_shift:
  "\<forall>a\<in>set slots. load64 m' (a + d) = load64 m a \<Longrightarrow>
   live_edges mm m' t (map (\<lambda>a. a + d) slots) = map (\<lambda>(a, w). (a + d, w)) (live_edges mm m t slots)"
  by (induction slots) (auto split: sum.splits)

lemma evacuated_scan:
  assumes ev: "evacuation c k mm m0 from rtti n bits m dst sem t t1"
    and run: "copy_object c mm from sem (m, t) = Ok (obj, m3, t3)"
    and view: "plain_view c m0 from weak p (from + of_nat (size_of (Object c))) offs"
    and inside: "fields_inside c n offs" "unat dst + unat n < 2 ^ 64"
    and map_apart: "apart dst (unat n) p (8 * (length offs + 1))" "apart from 8 p (8 * (length offs + 1))"
    and slots: "slots = ref_slots c weak (from + of_nat (size_of (Object c))) offs"
    and targets: "memory vm = m3" "slots_ok c mm m3 (core_state vm) (map (\<lambda>a. a + (dst - from)) slots)" "visitor_ok mm"
  shows "scan_object c mm obj vm = Ok (visit_all c mm
    (map (\<lambda>(a, w). (a + (dst - from), w)) (live_edges mm m0 (core_state vm) slots)) vm)"
proof -
  note copy = evacuated_view [OF ev run view inside map_apart]
  have "dst + h = from + h + (dst - from)" for h :: u64 by simp
  then have shift: "ref_slots c weak (dst + of_nat (size_of (Object c))) offs = map (\<lambda>a. a + (dst - from)) slots"
    unfolding slots by (metis ref_slots_shift)
  have "load64 m3 (a + (dst - from)) = load64 m0 a" if "a \<in> set slots" for a
    using that copy(2) by (auto simp: slots ref_slots_def algebra_simps)
  then have "live_edges mm m3 (core_state vm) (map (\<lambda>a. a + (dst - from)) slots) =
      map (\<lambda>(a, w). (a + (dst - from), w)) (live_edges mm m0 (core_state vm) slots)"
    by (intro live_edges_shift) blast
  then show ?thesis
    using scan_plain_visits [of mm c vm dst weak p _ offs] copy(1) targets evacuation_words(1) [OF ev run]
    by (simp only: shift)
qed


section \<open>A copied object\<close>

text \<open>An object at \<open>0x10000\<close> with one reference field (to \<open>0x10040\<close>) is copied to \<open>0x18000\<close>.\<close>

definition evac_words :: "(u64 \<times> u64) list" where
  "evac_words = [(0x2000, 1), (0x2008, - 1)] @ rtti_words 0x1000 5 24 0x2000 @
     obj_words 0x10040 0x1000 0 [0, 0] @ obj_words 0x10000 0x1000 0 [0, 0x10040] @
     [(0x18000, 0), (0x18008, 0), (0x18010, 0), (0x18018, 0)]"

definition evac_tagged :: mem where
  "evac_tagged = word_mem ((0x10000, 0x1003) # evac_words)"

lemma evac_evacuation:
  "evacuation sample_cfg 4 clearing_mmtk (word_mem evac_words) 0x10000 0x1000 32 3 evac_tagged 0x18000 0
     (sample_core [0x10040]) (sample_core [0x10040])"
proof -
  have "obj_rtti sample_cfg (word_mem evac_words) 0x10000 = Ok 0x1000"
    "obj_size sample_cfg (word_mem evac_words) 0x10000 = Ok 32"
    by (simp_all add: evac_words_def abi_defs)
  moreover have "store64 (word_mem evac_words) 0x10000 (0x1000 OR 3) = Ok evac_tagged"
    by (simp add: evac_tagged_def evac_words_def aligned8_def rtti_words_def obj_words_def)
  ultimately show ?thesis
    using clearing_post_copy
    by (auto simp: evacuation_def apart_def clearing_mmtk_def sample_mmtk_def sample_alignment)
qed

lemma evac_run:
  "\<exists>m3 t3. copy_object sample_cfg clearing_mmtk 0x10000 0 (evac_tagged, sample_core [0x10040]) = Ok (0x18000, m3, t3)"
proof -
  have "mapped evac_tagged 0x10000 (8 * 4)" "mapped evac_tagged 0x18000 (8 * 4)"
    unfolding evac_tagged_def evac_words_def
    by (rule mapped_word_mem; simp add: aligned8_def rtti_words_def obj_words_def upt_rec)+
  then have "\<exists>m'. copy_nonoverlapping evac_tagged 0x10000 0x18000 (8 * 4) = Ok m'"
    by (rule copy_nonoverlapping_total) (simp_all add: apart_def)
  moreover have "size_for_copy sample_cfg evac_tagged 0x10000 = Ok 32"
    by (simp add: evac_tagged_def evac_words_def abi_defs)
  ultimately show ?thesis
    by (auto simp: copy_object_def clearing_mmtk_def sample_mmtk_def)
qed

lemma evac_view:
  "plain_view sample_cfg (word_mem evac_words) 0x10000 False 0x2000 0x10010 [1]"
proof -
  have "ref_map (word_mem evac_words) 0x2000 [1]"
    by (simp add: ref_map_def evac_words_def abi_defs LAST_FIELD_OFFSET_def)
  moreover have "obj_rtti sample_cfg (word_mem evac_words) 0x10000 = Ok 0x1000"
    "rtti_ref_map sample_cfg (word_mem evac_words) 0x1000 = Ok 0x2000"
    by (simp_all add: evac_words_def abi_defs)
  ultimately show ?thesis
    by (auto simp: plain_view_def offsets_ok_def get_fields_def evac_words_def abi_defs)
qed

lemma evac_target:
  assumes "copy_object sample_cfg clearing_mmtk 0x10000 0 (evac_tagged, sample_core [0x10040]) = Ok (0x18000, m3, t3)"
  shows "header_ok sample_cfg m3 0x10040 0 0"
proof -
  note keep = evacuation_words(4,5) [OF evac_evacuation assms]
  have "load64 m3 0x10040 = Ok 0x1000" "load64 m3 0x1008 = Ok 0" "load64 m3 0x10048 = Ok 0"
    "load32 m3 0x1010 = Ok 5" "load32 m3 0x1020 = Ok 24"
    using keep(1) [of "0x10040"] keep(1) [of "0x1008"] keep(1) [of "0x10048"] keep(2) [of "0x1010"] keep(2) [of "0x1020"]
    by (simp_all add: apart_def evac_words_def aligned8_def rtti_words_def obj_words_def)
  then show ?thesis
    by (auto simp: header_ok_def obj_rtti_def obj_lock_word_def rtti_lock_word_addr_def is_weak_reference_def
        rtti_id_def rtti_size_def obj_size_def is_array_def in_id_range_def round_to_next_multiple_def)
qed

end
