(* ===== verification/Tracing.thy ===== *)
theory Tracing
  imports Evacuation
begin

text \<open>
  Tracing the edges of an object (\<open>scan_object_and_trace_edges\<close>) with a tracer that may evacuate:
  the first trace of an object may copy it and so create an object, every later one returns the copy. Each live slot ends up with
  the address its old content was forwarded to. The concrete tracer evacuates by the
  binding's own \<open>copy\<close>.
\<close>

section \<open>What tracing relies on\<close>

text \<open>An object whose headers are sound and whose lock words (and its type's) refer to no monitor.\<close>

definition plain_target :: "'a upcalls_scheme \<Rightarrow> mem \<Rightarrow> u64 \<Rightarrow> bool" where
  "plain_target c m obj \<longleftrightarrow>
     (\<exists>rl ol. header_ok c m obj rl ol \<and> \<not> field_is_inflated_lock rl \<and> \<not> field_is_inflated_lock ol)"

text \<open>
  mmtk-core's tracer, over an invariant \<open>I\<close> of memory and core state: tracing an object returns its
  current address, an object; \<open>fwd t\<close> says where the objects traced so far are, and keeps saying it, so
  that an object is moved at most once; what was an object stays one during tracing (\<open>object_model.rs\<close> asks for it by
  \<open>NEED_VO_BITS_DURING_TRACING\<close>) and new objects may appear; the slots of the object being scanned
  are not touched, and storing to them does not break \<open>I\<close>.
\<close>

definition tracer_ok ::
    "'a upcalls_scheme \<Rightarrow> 't mmtk \<Rightarrow> (mem \<Rightarrow> 't \<Rightarrow> bool) \<Rightarrow> ('t \<Rightarrow> u64 \<Rightarrow> u64 option) \<Rightarrow> u64 list \<Rightarrow> bool" where
  "tracer_ok c mm I fwd slots \<longleftrightarrow>
     (\<forall>m t a. I m t \<and> is_mmtk_object mm t a \<longrightarrow>
        (\<exists>b m' t'. trace_object mm a (m, t) = (b, m', t') \<and> I m' t' \<and>
           fwd t' a = Some b \<and> fwd t \<subseteq>\<^sub>m fwd t' \<and>
           is_mmtk_object mm t' b \<and> plain_target c m' b \<and>
           (\<forall>x. is_mmtk_object mm t x \<longrightarrow> is_mmtk_object mm t' x) \<and>
           (\<forall>x\<in>set slots. load64 m' x = load64 m x))) \<and>
     (\<forall>m t a w m'. I m t \<and> a \<in> set slots \<and> store64 m a w = Ok m' \<longrightarrow> I m' t)"

text \<open>A word that refers to an object now, or never will while \<open>I\<close> holds (say, no address of the to-space).\<close>

definition settled :: "'t mmtk \<Rightarrow> (mem \<Rightarrow> 't \<Rightarrow> bool) \<Rightarrow> 't \<Rightarrow> u64 \<Rightarrow> bool" where
  "settled mm I t w \<longleftrightarrow> live_ref mm t w \<or> (\<forall>m t'. I m t' \<longrightarrow> \<not> live_ref mm t' w)"

definition slots_settled :: "'t mmtk \<Rightarrow> (mem \<Rightarrow> 't \<Rightarrow> bool) \<Rightarrow> mem \<Rightarrow> 't \<Rightarrow> u64 list \<Rightarrow> bool" where
  "slots_settled mm I m t slots \<longleftrightarrow> (\<forall>x\<in>set slots. aligned8 x \<and> (\<exists>w. load64 m x = Ok w \<and> settled mm I t w))"

text \<open>What a slot that held \<open>w\<close> holds after tracing.\<close>

definition traced_to :: "'t mmtk \<Rightarrow> 't \<Rightarrow> (u64 \<Rightarrow> u64 option) \<Rightarrow> u64 \<Rightarrow> u64 option" where
  "traced_to mm t F w = (if live_ref mm t w then F w else Some w)"

lemma traced_to_mono: "F \<subseteq>\<^sub>m G \<Longrightarrow> traced_to mm t F w = Some w' \<Longrightarrow> traced_to mm t G w = Some w'"
  by (force simp: traced_to_def map_le_def dom_def split: if_splits)


section \<open>Slots\<close>

text \<open>What one step of tracing may do to everything but the slot it handles.\<close>

definition grown ::
    "'t mmtk \<Rightarrow> (mem \<Rightarrow> 't \<Rightarrow> bool) \<Rightarrow> ('t \<Rightarrow> u64 \<Rightarrow> u64 option) \<Rightarrow> 't vm \<Rightarrow> 't vm \<Rightarrow> bool" where
  "grown mm I fwd vm vm' \<longleftrightarrow> I (memory vm') (core_state vm') \<and> fwd (core_state vm) \<subseteq>\<^sub>m fwd (core_state vm') \<and>
     (\<forall>x. is_mmtk_object mm (core_state vm) x \<longrightarrow> is_mmtk_object mm (core_state vm') x)"

lemma grown_trans: "grown mm I fwd vm vm1 \<Longrightarrow> grown mm I fwd vm1 vm2 \<Longrightarrow> grown mm I fwd vm vm2"
  by (auto simp: grown_def intro: map_le_trans)

lemma trace_slot:
  assumes tr: "tracer_ok c mm I fwd slots" and I: "I (memory vm) (core_state vm)"
    and a: "a \<in> set slots" "load64 (memory vm) a = Ok w" and al: "\<forall>x\<in>set slots. aligned8 x"
  shows "\<exists>vm' w'. slot_step mm (mmtk_scan_field_and_trace_edges c mm) a vm = Ok vm' \<and> grown mm I fwd vm vm' \<and>
    traced_to mm (core_state vm) (fwd (core_state vm')) w = Some w' \<and>
    (\<forall>x\<in>set slots. load64 (memory vm') x = (if x = a then Ok w' else load64 (memory vm) x))"
proof (cases "live_ref mm (core_state vm) w")
  case False
  then have "slot_step mm (mmtk_scan_field_and_trace_edges c mm) a vm = Ok vm"
    using a(2) by (auto simp: slot_step_def mmtk_scan_field_and_trace_edges_def is_object_def live_ref_def)
  then show ?thesis using False a I by (auto simp: grown_def traced_to_def)
next
  case True
  then have w: "is_word_in_heap mm w" "is_mmtk_object mm (core_state vm) w" by (simp_all add: live_ref_def)
  obtain b m1 t1 where t1: "trace_object mm w (memory vm, core_state vm) = (b, m1, t1)" "I m1 t1" "fwd t1 w = Some b"
    "fwd (core_state vm) \<subseteq>\<^sub>m fwd t1" "is_mmtk_object mm t1 b" "plain_target c m1 b"
    "\<forall>x. is_mmtk_object mm (core_state vm) x \<longrightarrow> is_mmtk_object mm t1 x" "\<forall>x\<in>set slots. load64 m1 x = load64 (memory vm) x"
    using tr I w(2) unfolding tracer_ok_def by blast
  obtain m2 where m2: "store64 m1 a b = Ok m2"
    using load64_total_store [of m1 a w] t1(8) a by auto
  let ?vm1 = "vm\<lparr>memory := m1, core_state := t1\<rparr>"
  obtain k where "is_weak_reference c m1 b = Ok k"
    using t1(6) by (auto simp: plain_target_def header_ok_def)
  then obtain ws where push: "push_if_weak c b ?vm1 = Ok (push_weak_upd ws ?vm1)"
    using push_if_weak_Ok [of c ?vm1 b k] by auto
  have locks: "mmtk_scan_lock_words_and_trace_edges c mm b ?vm1 = Ok ?vm1"
    using t1(6) by (auto simp: plain_target_def header_ok_def mmtk_scan_lock_words_and_trace_edges_def
        trace_lock_word_def)
  have "debug_assert c (bindR (obj_rtti c m1 b) (\<lambda>rtti. Ok (rtti \<noteq> 0))) = Ok ()"
    "debug_assert c (bindR (obj_size c m1 b) (\<lambda>n. Ok (n \<noteq> 0))) = Ok ()"
    using t1(6) by (auto simp: plain_target_def header_ok_def debug_assert_def)
  then have "slot_step mm (mmtk_scan_field_and_trace_edges c mm) a vm = Ok (push_weak_upd ws ?vm1\<lparr>memory := m2\<rparr>)"
    using w a t1(1,5) push locks m2
    by (simp add: slot_step_def mmtk_scan_field_and_trace_edges_def is_object_def trace_def store_vm_def)
  moreover have "I m2 t1"
    using tr t1(2) a(1) m2 unfolding tracer_ok_def by blast
  moreover have "\<forall>x\<in>set slots. load64 m2 x = (if x = a then Ok b else load64 (memory vm) x)"
    using bytes.load_store_aligned [OF m2] al a(1) t1(8) by auto
  ultimately show ?thesis
    using True t1(3,4,7) by (auto simp: grown_def traced_to_def)
qed

lemma trace_slots:
  assumes tr: "tracer_ok c mm I fwd slots"
    and "set xs \<subseteq> set slots" "distinct xs" "I (memory vm) (core_state vm)"
    and "slots_settled mm I (memory vm) (core_state vm) xs" "\<forall>x\<in>set slots. aligned8 x"
  shows "\<exists>vm'. foldR (slot_step mm (mmtk_scan_field_and_trace_edges c mm)) xs vm = Ok vm' \<and> grown mm I fwd vm vm' \<and>
    (\<forall>x\<in>set slots - set xs. load64 (memory vm') x = load64 (memory vm) x) \<and>
    (\<forall>x\<in>set xs. \<exists>w w'. load64 (memory vm) x = Ok w \<and> load64 (memory vm') x = Ok w' \<and>
       traced_to mm (core_state vm) (fwd (core_state vm')) w = Some w')"
  using assms(2-5)
proof (induction xs arbitrary: vm)
  case Nil
  then show ?case by (simp add: grown_def)
next
  case (Cons a xs)
  obtain w where w: "load64 (memory vm) a = Ok w" using Cons.prems(4) by (auto simp: slots_settled_def)
  have a: "a \<in> set slots" using Cons.prems(1) by simp
  obtain vm1 w1 where vm1: "slot_step mm (mmtk_scan_field_and_trace_edges c mm) a vm = Ok vm1" "grown mm I fwd vm vm1"
    "traced_to mm (core_state vm) (fwd (core_state vm1)) w = Some w1"
    and ld: "\<forall>x\<in>set slots. load64 (memory vm1) x = (if x = a then Ok w1 else load64 (memory vm) x)"
    using trace_slot [OF tr Cons.prems(3) a w assms(6)] by blast
  have same: "load64 (memory vm1) x = load64 (memory vm) x" if "x \<in> set xs" for x
    using ld that Cons.prems(1,2) by auto
  have live: "live_ref mm (core_state vm1) v = live_ref mm (core_state vm) v" if "settled mm I (core_state vm) v" for v
    using that vm1(2) by (auto simp: settled_def grown_def live_ref_def)
  have settled: "slots_settled mm I (memory vm1) (core_state vm1) xs"
    using Cons.prems(4) same live by (fastforce simp: slots_settled_def settled_def)
  obtain vm' where vm': "foldR (slot_step mm (mmtk_scan_field_and_trace_edges c mm)) xs vm1 = Ok vm'" "grown mm I fwd vm1 vm'"
    and rest: "\<forall>x\<in>set slots - set xs. load64 (memory vm') x = load64 (memory vm1) x"
    and new: "\<forall>x\<in>set xs. \<exists>w w'. load64 (memory vm1) x = Ok w \<and> load64 (memory vm') x = Ok w' \<and>
      traced_to mm (core_state vm1) (fwd (core_state vm')) w = Some w'"
    using Cons.IH [OF _ _ _ settled] Cons.prems(1,2) vm1(2) by (auto simp: grown_def)
  have "\<exists>w w'. load64 (memory vm) x = Ok w \<and> load64 (memory vm') x = Ok w' \<and>
      traced_to mm (core_state vm) (fwd (core_state vm')) w = Some w'" if x: "x \<in> set (a # xs)" for x
  proof (cases "x = a")
    case True
    have "traced_to mm (core_state vm) (fwd (core_state vm')) w = Some w1"
      by (rule traced_to_mono [OF _ vm1(3)]) (use vm'(2) in \<open>simp add: grown_def\<close>)
    then show ?thesis using True w ld rest a Cons.prems(2) by auto
  next
    case False
    then have "x \<in> set xs" using x by simp
    with new same obtain v v' where v: "load64 (memory vm) x = Ok v" "load64 (memory vm') x = Ok v'"
      "traced_to mm (core_state vm1) (fwd (core_state vm')) v = Some v'" by metis
    moreover have "settled mm I (core_state vm) v" using Cons.prems(4) v(1) x by (auto simp: slots_settled_def)
    ultimately show ?thesis using live by (auto simp: traced_to_def)
  qed
  moreover have "\<forall>x\<in>set slots - set (a # xs). load64 (memory vm') x = load64 (memory vm) x"
    using rest ld by auto
  ultimately show ?case
    using vm1(1) vm'(1) grown_trans [OF vm1(2) vm'(2)] by auto
qed

text \<open>The tracing handler keeps \<open>I\<close> and leaves the slots readable.\<close>

lemma tracing_handler:
  assumes "tracer_ok c mm I fwd slots" "\<forall>x\<in>set slots. aligned8 x"
  shows "slot_handler mm (mmtk_scan_field_and_trace_edges c mm)
    (\<lambda>vm. I (memory vm) (core_state vm) \<and> (\<forall>x\<in>set slots. \<exists>w. load64 (memory vm) x = Ok w)) (set slots)"
proof unfold_locales
  fix a w vm vm'
  assume a: "a \<in> set slots" "I (memory vm) (core_state vm) \<and> (\<forall>x\<in>set slots. \<exists>w. load64 (memory vm) x = Ok w)"
    and w: "load64 (memory vm) a = Ok w" "is_word_in_heap mm w" "mmtk_scan_field_and_trace_edges c mm a w vm = Ok vm'"
  from trace_slot [OF assms(1) conjunct1 [OF a(2)] a(1) w(1) assms(2)] w a(2)
  show "I (memory vm') (core_state vm') \<and> (\<forall>x\<in>set slots. \<exists>w. load64 (memory vm') x = Ok w)"
    by (auto simp: slot_step_def grown_def)
qed

lemma settled_readable:
  "slots_settled mm I m t slots \<Longrightarrow> (\<forall>x\<in>set slots. aligned8 x) \<and> (\<forall>x\<in>set slots. \<exists>w. load64 m x = Ok w)"
  by (auto simp: slots_settled_def)


section \<open>Objects and arrays\<close>

text \<open>
  C5. Tracing a plain object, with a tracer that may evacuate: each of its slots that referred to a heap object
  holds afterwards the address that object was forwarded to, which was perhaps created by this very
  call; the other slots are as they were; mmtk-core's invariant holds. The objects traced are
  not locked by inflated monitors.
\<close>

theorem trace_plain_object:
  assumes "tracer_ok c mm I fwd (ref_slots c weak fa offs)"
    and "\<forall>m t. I m t \<longrightarrow> plain_view c m obj weak p fa offs"
    and "I (memory vm) (core_state vm)" "distinct (ref_slots c weak fa offs)"
    and "slots_settled mm I (memory vm) (core_state vm) (ref_slots c weak fa offs)"
  shows "\<exists>vm'. scan_object_and_trace_edges c mm obj vm = Ok vm' \<and> grown mm I fwd vm vm' \<and>
    (\<forall>x\<in>set (ref_slots c weak fa offs). \<exists>w w'. load64 (memory vm) x = Ok w \<and> load64 (memory vm') x = Ok w' \<and>
       traced_to mm (core_state vm) (fwd (core_state vm')) w = Some w')"
proof -
  note ready = settled_readable [OF assms(5)]
  have "iterate c mm (mmtk_scan_field_and_trace_edges c mm) obj vm =
      foldR (slot_step mm (mmtk_scan_field_and_trace_edges c mm)) (ref_slots c weak fa offs) vm"
    by (rule slot_handler.iterate_plain [OF tracing_handler [OF assms(1) conjunct1 [OF ready]], where p = p])
       (use assms(2,3) ready in auto)
  then show ?thesis
    using trace_slots [OF assms(1) order_refl assms(4,3,5) conjunct1 [OF ready]]
    by (auto simp: scan_object_and_trace_edges_def obj_iterate_and_trace_edges_eq)
qed

text \<open>
  C6. Tracing an object array, with a tracer that may evacuate: each element that referred to a heap object is
  afterwards the address that object was forwarded to, the others are as they were; an
  object that several elements refer to is moved once. The objects traced are not locked by
  inflated monitors.
\<close>

theorem trace_object_array:
  assumes "tracer_ok c mm I fwd (elem_slots elems n)" "I (memory vm) (core_state vm)"
    and "array_view c (memory vm) arr (get_object_array_id c) len" "0 \<le> sint len" "n = nat (sint len)"
    and "unat arr + size_of (ArrayHeader c) + 8 * n < 2 ^ 64" "elems = arr + of_nat (size_of (ArrayHeader c))"
    and "slots_settled mm I (memory vm) (core_state vm) (elem_slots elems n)"
  shows "\<exists>vm'. scan_object_and_trace_edges c mm arr vm = Ok vm' \<and> grown mm I fwd vm vm' \<and>
    (\<forall>i<n. \<exists>w w'. load64 (memory vm) (elems + 8 * of_nat i) = Ok w \<and> load64 (memory vm') (elems + 8 * of_nat i) = Ok w' \<and>
       traced_to mm (core_state vm) (fwd (core_state vm')) w = Some w')"
proof -
  note ready = settled_readable [OF assms(8)]
  have fits: "unat elems + 8 * n < 2 ^ 64" using assms(6,7) by (simp add: unat_word_ariths)
  have "iterate c mm (mmtk_scan_field_and_trace_edges c mm) arr vm =
      foldR (slot_step mm (mmtk_scan_field_and_trace_edges c mm)) (elem_slots elems n) vm"
    using slot_handler.iterate_array [OF tracing_handler [OF assms(1) conjunct1 [OF ready]] assms(3)] assms(4-7) by simp
  then obtain vm' where "scan_object_and_trace_edges c mm arr vm = Ok vm'" "grown mm I fwd vm vm'"
    "\<forall>x\<in>set (elem_slots elems n). \<exists>w w'. load64 (memory vm) x = Ok w \<and> load64 (memory vm') x = Ok w' \<and>
       traced_to mm (core_state vm) (fwd (core_state vm')) w = Some w'"
    using trace_slots [OF assms(1) order_refl elem_slots_distinct [OF fits] assms(2,8) conjunct1 [OF ready]]
    by (auto simp: scan_object_and_trace_edges_def obj_iterate_and_trace_edges_eq)
  then show ?thesis by (auto simp: elem_slots_def)
qed


section \<open>A tracer that evacuates\<close>

text \<open>
  A weak reference at \<open>0x10040\<close> and an array of two elements at \<open>0x10080\<close>; their slots (but the referent's) and both
  elements hold \<open>0x10000\<close>, the address of a plain object. The tracer moves that object at its first trace, by
  the binding's \<open>copy\<close>, to \<open>0x18000\<close>, where nothing is an object before; other objects stay.
\<close>

definition from_heap :: mem where
  "from_heap = word_mem ([(0x2000, 0), (0x2008, 1), (0x2010, - 1)] @
     rtti_words 0x1000 5 24 0x2010 @ rtti_words 0x1100 30 32 0x2000 @ rtti_words 0x1200 12 0 0x2010 @
     obj_words 0x10000 0x1000 0 [7, 8] @ obj_words 0x10040 0x1100 0 [0x10000, 0x10000] @
     array_words 0x10080 0x1200 2 8 [0x10000, 0x10000] @ map (\<lambda>a. (a, 0)) [0x18000, 0x18008, 0x18010, 0x18018])"

definition evacuate :: "u64 \<Rightarrow> mem \<times> core \<Rightarrow> u64 \<times> mem \<times> core" where
  "evacuate a = (\<lambda>(m, t).
     if a \<noteq> 0x10000 then (a, m, t)
     else case map_of (forwarded t) a of
            Some b \<Rightarrow> (b, m, t)
          | None \<Rightarrow>
              (case copy_object sample_cfg sample_mmtk a 0 (m, t) of
                 Inl e \<Rightarrow> (a, m, t)
               | Inr (b, m', t') \<Rightarrow> (b, m', t'\<lparr>forwarded := [(a, b)]\<rparr>)))"

definition evacuating_mmtk :: "core mmtk" where
  "evacuating_mmtk = sample_mmtk\<lparr>trace_object := evacuate\<rparr>"

definition moved_to :: "core \<Rightarrow> u64 \<Rightarrow> u64 option" where
  "moved_to t a = (case map_of (forwarded t) a of Some b \<Rightarrow> Some b
     | None \<Rightarrow> if a \<in> set (objects t) \<and> a \<noteq> 0x10000 then Some a else None)"

text \<open>The bytes that change: those of the slots and of the copy.\<close>

definition changing :: "(u64 \<times> nat) list" where
  "changing = [(0x10058, 8), (0x10098, 8), (0x100A0, 8), (0x18000, 32)]"

definition clean :: "u64 \<Rightarrow> nat \<Rightarrow> bool" where
  "clean b k \<longleftrightarrow> list_all (\<lambda>(a, n). apart a n b k) changing"

definition evac_inv :: "mem \<Rightarrow> core \<Rightarrow> bool" where
  "evac_inv m t \<longleftrightarrow> dom m = dom from_heap \<and>
     (\<forall>x. list_all (\<lambda>(a, n). n \<le> unat (x - a)) changing \<longrightarrow> m x = from_heap x) \<and>
     (objects t = [0x10000] \<and> forwarded t = [] \<or>
      objects t = [0x18000, 0x10000] \<and> forwarded t = [(0x10000, 0x18000)] \<and>
      (\<forall>i<32. m (0x18000 + of_nat i) = from_heap (0x10000 + of_nat i)))"

lemma load_bytes_cong:
  assumes "\<And>i. i < n \<Longrightarrow> m' (a + of_nat i) = m (b + of_nat i)"
  shows "load_bytes m' a n = load_bytes m b n"
proof -
  have "load_bytes m' a n = Some bs \<longleftrightarrow> load_bytes m b n = Some bs" for bs
    using assms unfolding load_bytes_eq_Some by auto
  then show ?thesis by (metis not_Some_eq)
qed

lemma mapped_dom: "dom m' = dom m \<Longrightarrow> mapped m' a n = mapped m a n"
proof -
  have "load_bytes m a n \<noteq> None \<longleftrightarrow> (\<forall>i<n. a + of_nat i \<in> dom m)" for m
  proof (induction n arbitrary: a)
    case (Suc n)
    show ?case
      using Suc.IH [of "a + 1"] by (auto simp: All_less_Suc2 algebra_simps dom_def split: option.splits)
  qed simp
  then show "dom m' = dom m \<Longrightarrow> mapped m' a n = mapped m a n" by (simp add: mapped_def)
qed

lemma clean_elem: "clean b k \<Longrightarrow> i < k \<Longrightarrow> list_all (\<lambda>(a, n). n \<le> unat (b + of_nat i - a)) changing"
  using apart_elem by (fastforce simp: clean_def list_all_iff)

lemma evac_clean: "evac_inv m t \<Longrightarrow> clean b k \<Longrightarrow> load_bytes m b k = load_bytes from_heap b k"
  by (rule load_bytes_cong) (use clean_elem in \<open>auto simp: evac_inv_def\<close>)

lemma evac_load:
  assumes "evac_inv m t"
  shows "clean b 8 \<Longrightarrow> load64 m b = load64 from_heap b" "clean b 4 \<Longrightarrow> load32 m b = load32 from_heap b"
  using evac_clean [OF assms] by (simp_all add: load64_def load32_def)

text \<open>What the code reads of this heap besides the slots.\<close>

lemma evac_reads:
  assumes "evac_inv m t"
  shows "load64 m 0x1008 = Ok 0" "load32 m 0x1010 = Ok 5" "load32 m 0x1020 = Ok 24" "load64 m 0x10000 = Ok 0x1000"
    "load64 m 0x10040 = Ok 0x1100" "load32 m 0x1110 = Ok 30" "load64 m 0x1128 = Ok 0x2000"
    "load64 m 0x2000 = Ok 0" "load64 m 0x2008 = Ok 1" "load64 m 0x2010 = Ok (- 1)"
    "load64 m 0x10080 = Ok 0x1200" "load32 m 0x1210 = Ok 12" "load32 m 0x10090 = Ok 2"
  using assms
  by (simp_all add: evac_load clean_def changing_def apart_def)
     (simp_all add: from_heap_def aligned8_def rtti_words_def obj_words_def array_words_def)

text \<open>The copy, once it is made.\<close>

lemma evac_copy_reads:
  assumes "evac_inv m t" "0x18000 \<in> set (objects t)"
  shows "load64 m 0x18000 = Ok 0x1000" "load64 m 0x18008 = Ok 0"
proof -
  have copy: "\<And>i. i < 32 \<Longrightarrow> m (0x18000 + of_nat i) = from_heap (0x10000 + of_nat i)"
    using assms by (auto simp: evac_inv_def)
  have at8: "m (0x18008 + of_nat i) = from_heap (0x10008 + of_nat i)" if "i < 8" for i
    using copy [of "8 + i"] that by (simp add: add.assoc [symmetric])
  have "load64 m 0x18000 = load64 from_heap 0x10000" "load64 m 0x18008 = load64 from_heap 0x10008"
    using load_bytes_cong [of 8 m "0x18000" from_heap "0x10000"] copy
      load_bytes_cong [of 8 m "0x18008" from_heap "0x10008"] at8 by (simp_all add: load64_def)
  moreover have "load64 from_heap 0x10000 = Ok 0x1000" "load64 from_heap 0x10008 = Ok 0"
    by (simp_all add: from_heap_def aligned8_def rtti_words_def obj_words_def array_words_def)
  ultimately show "load64 m 0x18000 = Ok 0x1000" "load64 m 0x18008 = Ok 0" by simp_all
qed

lemma moved_target:
  assumes "evac_inv m t" "0x18000 \<in> set (objects t)"
  shows "plain_target sample_cfg m 0x18000"
  using evac_reads [OF assms(1)] evac_copy_reads [OF assms]
  by (auto simp: plain_target_def header_ok_def abi_defs lock_defs intro!: exI [of _ 0])

lemma evac_copy:
  assumes "evac_inv m t" "forwarded t = []"
  shows "\<exists>m' t'. evacuate 0x10000 (m, t) = (0x18000, m', t') \<and> evac_inv m' t' \<and> objects t' = [0x18000, 0x10000] \<and>
    forwarded t' = [(0x10000, 0x18000)] \<and> (\<forall>a. apart 0x18000 32 a 8 \<longrightarrow> load64 m' a = load64 m a)"
proof -
  have m: "dom m = dom from_heap" "\<And>x. list_all (\<lambda>(a, n). n \<le> unat (x - a)) changing \<Longrightarrow> m x = from_heap x"
    "objects t = [0x10000]"
    using assms by (auto simp: evac_inv_def)
  have "mapped from_heap 0x10000 (8 * 4)" "mapped from_heap 0x18000 (8 * 4)"
    unfolding from_heap_def by (rule mapped_word_mem; simp add: aligned8_def rtti_words_def obj_words_def array_words_def upt_rec)+
  then obtain m' where m': "copy_nonoverlapping m 0x10000 0x18000 32 = Ok m'"
    using copy_nonoverlapping_total [of m "0x10000" 32 "0x18000"] mapped_dom [OF m(1)] by (auto simp: apart_def)
  note bytes = copy_nonoverlapping_bytes [OF m']
  have "size_for_copy sample_cfg m 0x10000 = Ok 32"
    using evac_reads [OF assms(1)] by (simp add: abi_defs)
  then have copy: "copy_object sample_cfg sample_mmtk 0x10000 0 (m, t) = Ok (0x18000, m', t\<lparr>objects := [0x18000, 0x10000]\<rparr>)"
    using m' m(3) by (simp add: copy_object_def sample_mmtk_def)
  have "clean 0x10000 32" by (simp add: clean_def changing_def apart_def)
  then have src: "m (0x10000 + of_nat i) = from_heap (0x10000 + of_nat i)" if "i < 32" for i
    using that by (intro m(2) clean_elem)
  have "evac_inv m' (t\<lparr>objects := [0x18000, 0x10000], forwarded := [(0x10000, 0x18000)]\<rparr>)"
    unfolding evac_inv_def
  proof (intro conjI allI impI)
    show "dom m' = dom from_heap"
      using m' m(1) store_bytes_dom by (fastforce simp: copy_nonoverlapping_def split: if_splits)
    show "m' x = from_heap x" if "list_all (\<lambda>(a, n). n \<le> unat (x - a)) changing" for x
      using bytes [of x] m(2) [OF that] that by (auto simp: changing_def)
    have "m' (0x18000 + of_nat i) = from_heap (0x10000 + of_nat i)" if "i < 32" for i
      using bytes [of "0x18000 + of_nat i"] src [OF that] that by (simp add: unat_of_nat)
    then show "objects (t\<lparr>objects := [0x18000, 0x10000], forwarded := [(0x10000, 0x18000)]\<rparr>) = [0x10000] \<and>
        forwarded (t\<lparr>objects := [0x18000, 0x10000], forwarded := [(0x10000, 0x18000)]\<rparr>) = [] \<or>
      objects (t\<lparr>objects := [0x18000, 0x10000], forwarded := [(0x10000, 0x18000)]\<rparr>) = [0x18000, 0x10000] \<and>
        forwarded (t\<lparr>objects := [0x18000, 0x10000], forwarded := [(0x10000, 0x18000)]\<rparr>) = [(0x10000, 0x18000)] \<and>
        (\<forall>i<32. m' (0x18000 + of_nat i) = from_heap (0x10000 + of_nat i))"
      by simp
  qed
  moreover have "load64 m' a = load64 m a" if "apart 0x18000 32 a 8" for a
    by (rule load_copy_apart(1) [OF m' _ that]) simp
  ultimately show ?thesis
    using copy assms(2) by (simp add: evacuate_def)
qed

lemma evac_store:
  assumes inv: "evac_inv m t" and st: "store64 m a w = Ok m'" and a: "a \<in> {0x10058, 0x10098, 0x100A0}"
  shows "evac_inv m' t"
proof -
  obtain bs where "store_bytes m a bs = Some m'" "length bs = 8"
    using st by (auto simp: store64_def)
  then have same: "m' x = m x" if "8 \<le> unat (x - a)" for x
    using store_bytes_apply [of m a bs m' x] that by simp
  have "apart a 8 0x18000 32" using a by (auto simp: apart_def)
  then have "m' (0x18000 + of_nat i) = m (0x18000 + of_nat i)" if "i < 32" for i
    using apart_elem that by (intro same) blast
  moreover have "m' x = m x" if "list_all (\<lambda>(a, n). n \<le> unat (x - a)) changing" for x
    using that a by (intro same) (auto simp: changing_def)
  ultimately show ?thesis
    using inv store64_dom [OF st] by (auto simp: evac_inv_def)
qed

lemma evacuating_tracer:
  assumes "set slots \<subseteq> {0x10058, 0x10098, 0x100A0}"
  shows "tracer_ok sample_cfg evacuating_mmtk evac_inv moved_to slots"
  unfolding tracer_ok_def
proof (intro conjI allI impI; elim conjE)
  fix m t a w m'
  assume "evac_inv m t" "a \<in> set slots" "store64 m a w = Ok m'"
  then show "evac_inv m' t" using evac_store assms by blast
next
  fix m t a
  assume inv: "evac_inv m t" and obj: "is_mmtk_object evacuating_mmtk t a"
  have slots: "apart 0x18000 32 x 8" if "x \<in> set slots" for x
    using that assms by (auto simp: apart_def)
  from inv consider (first) "objects t = [0x10000]" "forwarded t = []"
    | (later) "objects t = [0x18000, 0x10000]" "forwarded t = [(0x10000, 0x18000)]"
    by (auto simp: evac_inv_def)
  then show "\<exists>b m' t'. trace_object evacuating_mmtk a (m, t) = (b, m', t') \<and> evac_inv m' t' \<and>
      moved_to t' a = Some b \<and> moved_to t \<subseteq>\<^sub>m moved_to t' \<and>
      is_mmtk_object evacuating_mmtk t' b \<and> plain_target sample_cfg m' b \<and>
      (\<forall>x. is_mmtk_object evacuating_mmtk t x \<longrightarrow> is_mmtk_object evacuating_mmtk t' x) \<and>
      (\<forall>x\<in>set slots. load64 m' x = load64 m x)"
  proof cases
    case first
    then have a: "a = 0x10000" using obj by (simp add: evacuating_mmtk_def sample_mmtk_def)
    obtain m' t' where t': "evacuate 0x10000 (m, t) = (0x18000, m', t')" "evac_inv m' t'"
      "objects t' = [0x18000, 0x10000]" "forwarded t' = [(0x10000, 0x18000)]"
      "\<And>a. apart 0x18000 32 a 8 \<Longrightarrow> load64 m' a = load64 m a"
      using evac_copy [OF inv first(2)] by blast
    then show ?thesis
      using a first slots moved_target [of m' t']
      by (intro exI [of _ "0x18000"] exI [of _ m'] exI [of _ t'])
         (auto simp: evacuating_mmtk_def sample_mmtk_def moved_to_def map_le_def)
  next
    case later
    then have "a = 0x10000 \<or> a = 0x18000" using obj by (auto simp: evacuating_mmtk_def sample_mmtk_def)
    then show ?thesis
      using later inv moved_target [OF inv]
      by (intro exI [of _ "0x18000"] exI [of _ m] exI [of _ t])
         (auto simp: evacuating_mmtk_def sample_mmtk_def moved_to_def evacuate_def)
  qed
qed

lemma evac_views:
  assumes "evac_inv m t"
  shows "plain_view sample_cfg m 0x10040 True 0x2000 0x10050 [0, 1]"
    "array_view sample_cfg m 0x10080 (get_object_array_id sample_cfg) 2"
proof -
  note reads = evac_reads [OF assms]
  have "ref_map m 0x2000 [0, 1]"
    using reads by (simp add: ref_map_def LAST_FIELD_OFFSET_def)
  moreover have "obj_rtti sample_cfg m 0x10040 = Ok 0x1100" "rtti_ref_map sample_cfg m 0x1100 = Ok 0x2000"
    using reads by (simp_all add: abi_defs)
  ultimately show "plain_view sample_cfg m 0x10040 True 0x2000 0x10050 [0, 1]"
    using reads by (simp add: plain_view_def offsets_ok_def get_fields_def abi_defs)
  show "array_view sample_cfg m 0x10080 (get_object_array_id sample_cfg) 2"
    using reads by (simp add: array_view_def abi_defs)
qed

definition evac_vm :: "core vm" where
  "evac_vm = init_vm from_heap (sample_core [0x10000])"

lemma evac_start: "evac_inv (memory evac_vm) (core_state evac_vm)"
  by (simp add: evac_inv_def evac_vm_def sample_core_def)

lemma evac_live: "live_ref evacuating_mmtk (core_state evac_vm) 0x10000"
  by (simp add: live_ref_def evacuating_mmtk_def sample_mmtk_def evac_vm_def sample_core_def is_word_in_heap_def)

text \<open>At the start, \<open>0x18000\<close> is no object; once \<open>0x10000\<close> was traced it is.\<close>

lemma evac_moved:
  assumes "grown evacuating_mmtk evac_inv moved_to evac_vm vm'"
    and "traced_to evacuating_mmtk (core_state evac_vm) (moved_to (core_state vm')) 0x10000 = Some w'"
  shows "w' = 0x18000" "\<not> is_mmtk_object evacuating_mmtk (core_state evac_vm) w'"
    "is_mmtk_object evacuating_mmtk (core_state vm') w'"
  using assms evac_live
  by (auto simp: grown_def evac_inv_def traced_to_def moved_to_def evacuating_mmtk_def sample_mmtk_def evac_vm_def
      sample_core_def split: if_splits)

theorem trace_plain_object_witness:
  "\<exists>vm'. scan_object_and_trace_edges sample_cfg evacuating_mmtk 0x10040 evac_vm = Ok vm' \<and>
    load64 (memory evac_vm) 0x10058 = Ok 0x10000 \<and> load64 (memory vm') 0x10058 = Ok 0x18000 \<and>
    \<not> is_mmtk_object evacuating_mmtk (core_state evac_vm) 0x18000 \<and>
    is_mmtk_object evacuating_mmtk (core_state vm') 0x18000"
proof -
  have slots: "ref_slots sample_cfg True 0x10050 [0, 1] = [0x10058]"
    by (simp add: ref_slots_def)
  have word: "load64 (memory evac_vm) 0x10058 = Ok 0x10000"
    by (simp add: evac_vm_def from_heap_def aligned8_def rtti_words_def obj_words_def array_words_def)
  then have settled: "slots_settled evacuating_mmtk evac_inv (memory evac_vm) (core_state evac_vm) [0x10058]"
    using evac_live by (simp add: slots_settled_def settled_def aligned8_def)
  obtain vm' where vm': "scan_object_and_trace_edges sample_cfg evacuating_mmtk 0x10040 evac_vm = Ok vm'"
    "grown evacuating_mmtk evac_inv moved_to evac_vm vm'"
    "\<exists>w'. load64 (memory vm') 0x10058 = Ok w' \<and>
       traced_to evacuating_mmtk (core_state evac_vm) (moved_to (core_state vm')) 0x10000 = Some w'"
    using trace_plain_object [OF evacuating_tracer _ evac_start, of True "0x10050" "[0, 1]" "0x10040" "0x2000"]
      evac_views(1) settled word unfolding slots by auto
  then show ?thesis using word evac_moved [OF vm'(2)] by auto
qed

theorem trace_object_array_witness:
  "\<exists>vm'. scan_object_and_trace_edges sample_cfg evacuating_mmtk 0x10080 evac_vm = Ok vm' \<and>
    load64 (memory evac_vm) 0x10098 = Ok 0x10000 \<and> load64 (memory evac_vm) 0x100A0 = Ok 0x10000 \<and>
    load64 (memory vm') 0x10098 = Ok 0x18000 \<and> load64 (memory vm') 0x100A0 = Ok 0x18000 \<and>
    \<not> is_mmtk_object evacuating_mmtk (core_state evac_vm) 0x18000 \<and>
    is_mmtk_object evacuating_mmtk (core_state vm') 0x18000"
proof -
  have slots: "elem_slots 0x10098 2 = [0x10098, 0x100A0]"
    by (simp add: elem_slots_def numeral_2_eq_2)
  have words: "load64 (memory evac_vm) 0x10098 = Ok 0x10000" "load64 (memory evac_vm) 0x100A0 = Ok 0x10000"
    by (simp_all add: evac_vm_def from_heap_def aligned8_def rtti_words_def obj_words_def array_words_def)
  then have settled: "slots_settled evacuating_mmtk evac_inv (memory evac_vm) (core_state evac_vm) [0x10098, 0x100A0]"
    using evac_live by (simp add: slots_settled_def settled_def aligned8_def)
  have "\<exists>vm'. scan_object_and_trace_edges sample_cfg evacuating_mmtk 0x10080 evac_vm = Ok vm' \<and>
    grown evacuating_mmtk evac_inv moved_to evac_vm vm' \<and>
    (\<forall>i<2. \<exists>w w'. load64 (memory evac_vm) (0x10098 + 8 * of_nat i) = Ok w \<and>
       load64 (memory vm') (0x10098 + 8 * of_nat i) = Ok w' \<and>
       traced_to evacuating_mmtk (core_state evac_vm) (moved_to (core_state vm')) w = Some w')"
  proof (rule trace_object_array)
    show "evac_inv (memory evac_vm) (core_state evac_vm)" by (rule evac_start)
    show "array_view sample_cfg (memory evac_vm) 0x10080 (get_object_array_id sample_cfg) 2"
      by (rule evac_views(2) [OF evac_start])
    show "tracer_ok sample_cfg evacuating_mmtk evac_inv moved_to (elem_slots 0x10098 2)"
      unfolding slots by (rule evacuating_tracer) simp
    show "slots_settled evacuating_mmtk evac_inv (memory evac_vm) (core_state evac_vm) (elem_slots 0x10098 2)"
      unfolding slots by (rule settled)
  qed simp_all
  then obtain vm' where vm': "scan_object_and_trace_edges sample_cfg evacuating_mmtk 0x10080 evac_vm = Ok vm'"
    "grown evacuating_mmtk evac_inv moved_to evac_vm vm'"
    "\<forall>i<2. \<exists>w w'. load64 (memory evac_vm) (0x10098 + 8 * of_nat i) = Ok w \<and>
       load64 (memory vm') (0x10098 + 8 * of_nat i) = Ok w' \<and>
       traced_to evacuating_mmtk (core_state evac_vm) (moved_to (core_state vm')) w = Some w'" by blast
  from vm'(3) [rule_format, of 0] vm'(3) [rule_format, of 1] show ?thesis
    using vm'(1) words evac_moved [OF vm'(2)] by auto
qed

end
