(* ===== verification/Scan_Equivalence.thy ===== *)
theory Scan_Equivalence
  imports Object_Scan_Props
begin

text \<open>
  The source spells the traversal of an object out twice, once for an edge visitor and once
  for an object tracer. Here the two are compared as they are: with a tracer that moves
  nothing, both make the same calls in the same order and fail on the same objects.
\<close>

section \<open>Iterations with agreeing handlers\<close>

lemma ref_map_loop_cong:
  assumes "\<And>off t. I t \<Longrightarrow> body off t = body' off t" "\<And>off t t'. I t \<Longrightarrow> body off t = Ok t' \<Longrightarrow> I t'" "I s"
  shows "ref_map_loop mem p body i s = ref_map_loop mem p body' i s"
  using assms
proof (induction mem p body i s rule: ref_map_loop.induct)
  case (1 mem p body i s)
  have IH: "ref_map_loop mem p body (i + 1) s' = ref_map_loop mem p body' (i + 1) s'"
    if "ptr_offset p i = Ok a" "load64 (mem s) a = Ok off" "off \<noteq> LAST_FIELD_OFFSET" "body off s = Ok s'" for a off s'
    by (rule "1.IH" [OF that "1.prems"(1,2) "1.prems"(2) [OF "1.prems"(3) that(4)]])
  show ?case
    by (subst (1 2) ref_map_loop.simps) (use 1 IH in \<open>auto intro!: bindR_cong\<close>)
qed

text \<open>Handlers that agree on the slots they are run on.\<close>

definition agree :: "'t mmtk \<Rightarrow> ('t vm \<Rightarrow> bool) \<Rightarrow> (u64 \<Rightarrow> u64 \<Rightarrow> 't vm \<Rightarrow> 't vm res) \<Rightarrow>
    (u64 \<Rightarrow> u64 \<Rightarrow> 't vm \<Rightarrow> 't vm res) \<Rightarrow> bool" where
  "agree mm I scan scan' \<longleftrightarrow> (\<forall>a w vm. I vm \<and> load64 (memory vm) a = Ok w \<and> is_word_in_heap mm w \<longrightarrow>
     scan a w vm = scan' a w vm \<and> (\<forall>vm'. scan a w vm = Ok vm' \<longrightarrow> I vm'))"

lemma agree_field_step:
  "agree mm I scan scan' \<Longrightarrow> I vm \<Longrightarrow> field_step c mm scan obj fa off vm = field_step c mm scan' obj fa off vm"
  "agree mm I scan scan' \<Longrightarrow> I vm \<Longrightarrow> field_step c mm scan obj fa off vm = Ok vm' \<Longrightarrow> I vm'"
  by (auto simp: agree_def field_step_def intro!: bindR_cong split: if_splits)

lemma agree_element_step:
  "agree mm I scan scan' \<Longrightarrow> I vm \<Longrightarrow> element_step mm scan elems i vm = element_step mm scan' elems i vm"
  "agree mm I scan scan' \<Longrightarrow> I vm \<Longrightarrow> element_step mm scan elems i vm = Ok vm' \<Longrightarrow> I vm'"
  by (auto simp: agree_def element_step_def intro!: bindR_cong split: if_splits)

lemma agree_iterate:
  assumes "agree mm I scan scan'" "I vm"
  shows "iterate c mm scan obj vm = iterate c mm scan' obj vm"
proof -
  have "object_iterate c mm scan obj vm = object_iterate c mm scan' obj vm"
    unfolding object_iterate_def
    by (intro bindR_cong refl ref_map_loop_cong [where I = I]) (use assms agree_field_step in blast)+
  moreover have "array_iterate c mm scan arr vm = array_iterate c mm scan' arr vm" for arr
    unfolding array_iterate_def
    by (intro bindR_cong refl if_cong foldR_cong_inv [where I = I]) (use assms agree_element_step in metis)+
  ultimately show ?thesis
    unfolding iterate_def by (intro bindR_cong refl) simp
qed


section \<open>A tracer that moves nothing\<close>

text \<open>
  \<open>still c mm mark\<close>: \<open>trace_object\<close> leaves the object where it is and only changes mmtk-core's
  state, by \<open>mark\<close>, which does not change what is an object.
\<close>

definition still :: "'t mmtk \<Rightarrow> (u64 \<Rightarrow> 't \<Rightarrow> 't) \<Rightarrow> bool" where
  "still mm mark \<longleftrightarrow>
     (\<forall>a m t. is_mmtk_object mm t a \<longrightarrow> trace_object mm a (m, t) = (a, m, mark a t)) \<and>
     (\<forall>a t. is_mmtk_object mm (mark a t) = is_mmtk_object mm t)"

text \<open>The visitor that processes an edge at once: it marks what the slot of the edge holds.\<close>

definition eager :: "mem \<Rightarrow> (u64 \<Rightarrow> 't \<Rightarrow> 't) \<Rightarrow> 't mmtk \<Rightarrow> 't mmtk" where
  "eager m mark mm = mm\<lparr>visit_edge := (\<lambda>e t. case load64 m e of Inl _ \<Rightarrow> t | Inr w \<Rightarrow> mark w t)\<rparr>"

text \<open>No object refers to an inflated monitor, neither through its own lock word nor its type's.\<close>

definition thin_locks :: "'a upcalls_scheme \<Rightarrow> 't mmtk \<Rightarrow> mem \<Rightarrow> 't \<Rightarrow> bool" where
  "thin_locks c mm m t \<longleftrightarrow> (uses_lockword c \<longrightarrow> (\<forall>obj rtti l. is_mmtk_object mm t obj \<longrightarrow> obj_rtti c m obj = Ok rtti \<longrightarrow>
     load64 m (rtti_lock_word_addr c rtti) = Ok l \<or> obj_lock_word c m obj = Ok l \<longrightarrow> \<not> field_is_inflated_lock l))"

lemma eager_simps [simp]:
  "is_mmtk_object (eager m mark mm) = is_mmtk_object mm" "is_word_in_heap (eager m mark mm) = is_word_in_heap mm"
  by (simp_all add: eager_def is_word_in_heap_def fun_eq_iff)

lemma eager_steps [simp]:
  "field_step c (eager m mark mm) = field_step c mm" "element_step (eager m mark mm) = element_step mm"
  by (intro ext, simp add: field_step_def element_step_def cong: if_cong)+

lemma iterate_eager: "iterate c (eager m mark mm) scan = iterate c mm scan"
  by (intro ext) (simp add: iterate_def object_iterate_def array_iterate_def cong: if_cong)

lemma handlers_agree:
  assumes "still mm mark" "thin_locks c mm m t0"
  shows "agree mm (\<lambda>vm. memory vm = m \<and> is_mmtk_object mm (core_state vm) = is_mmtk_object mm t0)
    (mmtk_scan_field_and_trace_edges c mm) (mmtk_scan_field c (eager m mark mm))"
  unfolding agree_def
proof (intro allI impI, elim conjE)
  fix a w and vm :: "'a vm"
  assume vm: "memory vm = m" "is_mmtk_object mm (core_state vm) = is_mmtk_object mm t0" 
    and w: "load64 (memory vm) a = Ok w"
  show "mmtk_scan_field_and_trace_edges c mm a w vm = mmtk_scan_field c (eager m mark mm) a w vm \<and>
    (\<forall>vm'. mmtk_scan_field_and_trace_edges c mm a w vm = Ok vm' \<longrightarrow>
      memory vm' = m \<and> is_mmtk_object mm (core_state vm') = is_mmtk_object mm t0)"
  proof (cases "is_mmtk_object mm (core_state vm) w")
    case False
    then show ?thesis
      using vm by (simp add: mmtk_scan_field_and_trace_edges_def mmtk_scan_field_def is_object_def)
  next
    case True
    let ?vm1 = "vm\<lparr>core_state := mark w (core_state vm)\<rparr>"
    have tr: "trace mm w vm = (w, ?vm1)"
      using assms(1) True by (simp add: still_def trace_def)
    have still: "is_mmtk_object mm (mark w (core_state vm)) w"
      using assms(1) True by (simp add: still_def)
    have locks: "mmtk_scan_lock_words_and_trace_edges c mm w ?vm1 =
        bindR (mmtk_scan_lock_words c w vm) (\<lambda>_. Ok ?vm1)"
      using assms(2) True vm unfolding thin_locks_def
      by (auto simp: mmtk_scan_lock_words_and_trace_edges_def mmtk_scan_lock_words_def trace_lock_word_def bindR_assoc
          intro!: bindR_cong)
    have same: "vm' = vm" if "mmtk_scan_lock_words c w vm = Ok vm'" for vm'
      using that by (auto simp: mmtk_scan_lock_words_def split: if_splits)
    show ?thesis
      using True tr still locks same w vm assms(1) store64_same [of m a w]
      by (cases "debug_assert c (bindR (obj_rtti c m w) (\<lambda>rtti. Ok (rtti \<noteq> 0)))"; cases "mmtk_scan_lock_words c w vm";
          cases "is_weak_reference c m w"; cases "debug_assert c (bindR (obj_size c m w) (\<lambda>n. Ok (n \<noteq> 0)))")
         (simp_all add: mmtk_scan_field_and_trace_edges_def mmtk_scan_field_def is_object_def push_if_weak_def
           weak_ref_stack_push_def store_vm_def visit_def eager_def still_def)
  qed
qed

text \<open>
  C10. The two traversals agree: with a tracer that moves no object, and no inflated
  monitors, tracing an object is the same as visiting it with a visitor that marks the
  content of each edge. The outcome is the same state, or the same failure, for every
  object, whatever the memory holds.
\<close>

theorem trace_agrees_with_visit:
  assumes "still mm mark" "thin_locks c mm (memory vm) (core_state vm)"
  shows "scan_object_and_trace_edges c mm obj vm = scan_object c (eager (memory vm) mark mm) obj vm"
  using agree_iterate [OF handlers_agree [OF assms], of vm c obj]
  by (simp add: scan_object_and_trace_edges_def scan_object_def obj_iterate_eq obj_iterate_and_trace_edges_eq iterate_eager)

definition logging_mmtk :: "core mmtk" where
  "logging_mmtk = sample_mmtk\<lparr>trace_object := (\<lambda>a (m, t). (a, m, t\<lparr>traced_log := traced_log t @ [a]\<rparr>))\<rparr>"

theorem trace_agrees_with_visit_witness:
  "scan_object_and_trace_edges sample_cfg logging_mmtk 0x10040 graph_vm =
     scan_object sample_cfg (eager graph_mem (\<lambda>a t. t\<lparr>traced_log := traced_log t @ [a]\<rparr>) logging_mmtk) 0x10040 graph_vm"
proof -
  have "still logging_mmtk (\<lambda>a t. t\<lparr>traced_log := traced_log t @ [a]\<rparr>)"
    by (simp add: still_def logging_mmtk_def sample_mmtk_def fun_eq_iff)
  moreover have "thin_locks sample_cfg logging_mmtk graph_mem (sample_core [0x10000, 0x10040, 0x10080])"
    unfolding thin_locks_def
    by (auto simp: logging_mmtk_def sample_mmtk_def sample_core_def graph_mem_def abi_defs array_words_def lock_defs)
  ultimately show ?thesis
    using trace_agrees_with_visit [of logging_mmtk _ sample_cfg graph_vm "0x10040"] by simp
qed

end
