(* ===== verification/Display.thy ===== *)
theory Display
  imports Abi
begin

text \<open>
  The \<open>Display\<close> implementations of \<open>Object\<close> and \<open>ArrayHeader\<close> (\<open>object_scanning.rs\<close> 19-93),
  which debugging output uses. Text is a \<open>string\<close>; the characters written are all of
  the first 256 code points. The sink is a string that takes everything, so that
  \<open>fmt::Result\<close> is never an error; reading the object may fault or panic.
\<close>

section \<open>Rust's number formats\<close>

definition digit_char :: "nat \<Rightarrow> char" where
  "digit_char d = char_of (if d < 10 then 48 + d else 87 + d)"

text \<open>\<open>{}\<close> with base 10, \<open>{:x}\<close> with base 16; \<open>{:p}\<close> has the prefix.\<close>

function digits :: "nat \<Rightarrow> nat \<Rightarrow> string" where
  "digits base n =
     (if n < base \<or> base \<le> 1 then [digit_char n] else digits base (n div base) @ [digit_char (n mod base)])"
  by pat_completeness auto
termination
  by (relation "measure snd") auto

declare digits.simps [simp del]

definition dec :: "u64 \<Rightarrow> string" where
  "dec w = digits 10 (unat w)"

definition hex :: "u64 \<Rightarrow> string" where
  "hex w = digits 16 (unat w)"

definition pointer :: "u64 \<Rightarrow> string" where
  "pointer p = ''0x'' @ hex p"


section \<open>The class name\<close>

text \<open>A UTF-16 unit is printed as the character of its low byte: \<open>(*value as u8) as char\<close>.\<close>

definition latin1 :: "i16 \<Rightarrow> char" where
  "latin1 u = char_of (unat (ucast u :: u8))"

fun units :: "mem \<Rightarrow> u64 \<Rightarrow> nat \<Rightarrow> i16 list res" where
  "units m a 0 = Ok []"
| "units m a (Suc n) = bindR (load16 m a) (\<lambda>u. bindR (units m (a + 2) n) (\<lambda>us. Ok (u # us)))"

definition rtti_name :: "'a build_scheme \<Rightarrow> mem \<Rightarrow> u64 \<Rightarrow> u64 res" where
  "rtti_name c m r = load64 m (field (Runtime c) ''name'' (field (Rtti c) ''rt'' r))"

definition string_value :: "'a build_scheme \<Rightarrow> mem \<Rightarrow> u64 \<Rightarrow> u64 res" where
  "string_value c m s = load64 m (field (StringObject c) ''value'' s)"

text \<open>\<open>slice::from_raw_parts\<close> must not span more than \<open>isize::MAX\<close> bytes.\<close>

definition class_name :: "'a build_scheme \<Rightarrow> mem \<Rightarrow> u64 \<Rightarrow> string res" where
  "class_name c m rtti =
     bindR (rtti_name c m rtti) (\<lambda>name_str.
     bindR (string_value c m name_str) (\<lambda>char_arr.
     bindR (array_length c m (field (CharArray c) ''header'' char_arr)) (\<lambda>len.
     let len = unat (scast len :: u64) in
     bindR (guardR Ptr_overflow (2 * len < 2 ^ 63)) (\<lambda>_.
     bindR (units m (field (CharArray c) ''value'' char_arr) len) (\<lambda>us.
     Ok (map latin1 us))))))"


section \<open>Objects\<close>

text \<open>
  One entry of the reference map. The separator depends on \<open>num_fields() - 1\<close>, which walks
  the whole map again at every entry.
\<close>

definition display_field :: "'a upcalls_scheme \<Rightarrow> mem \<Rightarrow> u64 \<Rightarrow> u64 \<Rightarrow> int \<Rightarrow> i64 \<Rightarrow> string res" where
  "display_field c m obj fields_addr i off =
     bindR (guardR Unwrap_failed (0 \<le> sint off)) (\<lambda>_.
     bindR (ptr_offset fields_addr (sint off)) (\<lambda>edge.
     bindR (load64 m edge) (\<lambda>node.
     bindR (num_fields c m obj) (\<lambda>n.
     bindR (sub_u (dbg c) n 1) (\<lambda>n.
     bindR (guardR Unwrap_failed (0 \<le> sint n)) (\<lambda>_.
     Ok (pointer edge @ ''->'' @ pointer node @ (if i < sint n then '', '' else ''''))))))))"

function display_fields :: "'a upcalls_scheme \<Rightarrow> mem \<Rightarrow> u64 \<Rightarrow> u64 \<Rightarrow> u64 \<Rightarrow> int \<Rightarrow> string res" where
  "display_fields c m obj fields_addr ptr_map i =
     bindR (ptr_offset ptr_map i) (\<lambda>a.
     bindR (load64 m a) (\<lambda>off.
     if off = LAST_FIELD_OFFSET then Ok ''''
     else bindR (display_field c m obj fields_addr i off) (\<lambda>out.
          bindR (display_fields c m obj fields_addr ptr_map (i + 1)) (\<lambda>rest.
          Ok (out @ rest)))))"
  by pat_completeness auto
termination
  by (relation "measure (\<lambda>(c, m, ob, f, p, i). nat (2 ^ 60 - i))") (auto dest!: ptr_offset_eq_Ok)

declare display_fields.simps [simp del]

definition display_object :: "'a upcalls_scheme \<Rightarrow> mem \<Rightarrow> u64 \<Rightarrow> string res" where
  "display_object c m obj =
     bindR (obj_rtti c m obj) (\<lambda>rtti.
     bindR (class_name c m rtti) (\<lambda>name.
     bindR (if uses_lockword c
            then bindR (obj_lock_word c m obj) (\<lambda>l. Ok ('', lock_word: '' @ pointer l)) else Ok '''') (\<lambda>lock.
     bindR (rtti_ref_map c m rtti) (\<lambda>ptr_map.
     bindR (get_fields c obj) (\<lambda>fields_addr.
     bindR (display_fields c m obj fields_addr ptr_map 0) (\<lambda>body.
     Ok (''Object(0x'' @ hex obj @ ''), name: ['' @ name @ '']'' @
         '', rtti: '' @ pointer rtti @ lock @ '', fields: ['' @ body @ '']'')))))))"


section \<open>Arrays\<close>

text \<open>Every element is read as a word, whatever the stride of the array is.\<close>

definition display_element :: "mem \<Rightarrow> u64 \<Rightarrow> nat \<Rightarrow> nat \<Rightarrow> string res" where
  "display_element m elems n i =
     bindR (ptr_offset elems (int i)) (\<lambda>a.
     bindR (load64 m a) (\<lambda>fld.
     Ok (''0x'' @ hex fld @ (if i < n - 1 then '', '' else ''''))))"

definition display_elements :: "mem \<Rightarrow> u64 \<Rightarrow> nat \<Rightarrow> string res" where
  "display_elements m elems n =
     foldR (\<lambda>i out. bindR (display_element m elems n i) (\<lambda>s. Ok (out @ s))) [0..<n] ''''"

definition display_array :: "'a upcalls_scheme \<Rightarrow> mem \<Rightarrow> u64 \<Rightarrow> string res" where
  "display_array c m arr =
     bindR (obj_rtti c m arr) (\<lambda>rtti.
     bindR (class_name c m rtti) (\<lambda>name.
     bindR (array_size c m arr) (\<lambda>bytes.
     bindR (add_u (dbg c) arr (of_nat (size_of (ArrayHeader c)))) (\<lambda>elems.
     bindR (array_length c m arr) (\<lambda>len.
     bindR (display_elements m elems (nat (sint len))) (\<lambda>body.
     Ok (''ArrayHeader(0x'' @ hex arr @ ''), name: ['' @ name @ '']'' @
         '', size: '' @ dec bytes @ '' bytes'' @ '', elements: ['' @ body @ '']'')))))))"

end
