(* ===== verification/Display_Props.thy ===== *)
theory Display_Props
  imports Display
begin

text \<open>
  What the two \<open>Display\<close> implementations print: numbers that can be read back, the fields
  of an object in the order of its reference map, and the elements of an array as words.
\<close>

section \<open>Numbers\<close>

definition digit_val :: "char \<Rightarrow> nat" where
  "digit_val ch = (let k = of_char ch in if k < 58 then k - 48 else k - 87)"

definition read_digits :: "nat \<Rightarrow> string \<Rightarrow> nat" where
  "read_digits base s = foldl (\<lambda>n ch. n * base + digit_val ch) 0 s"

lemma digit_val_char: "d < 16 \<Longrightarrow> digit_val (digit_char d) = d"
  by (auto simp: digit_val_def digit_char_def Let_def)

lemma read_digits_digits:
  assumes "2 \<le> base" "base \<le> 16"
  shows "read_digits base (digits base n) = n"
proof (induction n rule: less_induct)
  case (less n)
  show ?case
  proof (cases "n < base")
    case True
    then show ?thesis using assms by (subst digits.simps) (simp add: read_digits_def digit_val_char)
  next
    case False
    then have "read_digits base (digits base (n div base)) = n div base"
      using assms by (intro less) simp
    moreover have "digit_val (digit_char (n mod base)) = n mod base"
    proof (rule digit_val_char)
      have "n mod base < base" using assms by simp
      then show "n mod base < 16" using assms by linarith
    qed
    ultimately show ?thesis
      using False assms by (subst digits.simps) (simp add: read_digits_def)
  qed
qed

text \<open>
  The numbers of the output can be read back: reading the hexadecimal digits of an
  address, or the decimal digits of a size, gives the value that was printed.
\<close>

lemma printed_numbers_roundtrip:
  "of_nat (read_digits 16 (hex w)) = w \<and> read_digits 10 (dec n) = unat n"
  by (simp add: hex_def dec_def read_digits_digits)


section \<open>Fields\<close>

fun join :: "string \<Rightarrow> string list \<Rightarrow> string" where
  "join sep [] = ''''"
| "join sep (x # xs) = x @ (if xs = [] then '''' else sep @ join sep xs)"

definition field_entry :: "u64 \<Rightarrow> (i64 \<Rightarrow> u64) \<Rightarrow> i64 \<Rightarrow> string" where
  "field_entry fields_addr node off = pointer (fields_addr + 8 * off) @ ''->'' @ pointer (node off)"

text \<open>The fields of the map can be read, and hold the words \<open>node\<close>.\<close>

definition fields_hold :: "mem \<Rightarrow> u64 \<Rightarrow> i64 list \<Rightarrow> (i64 \<Rightarrow> u64) \<Rightarrow> bool" where
  "fields_hold m fields_addr offs node \<longleftrightarrow>
     (\<forall>off\<in>set offs. 0 \<le> sint off \<and> sint off < 2 ^ 60 \<and> uint fields_addr + 8 * sint off < 2 ^ 64 \<and>
        load64 m (fields_addr + 8 * off) = Ok (node off))"

lemma display_field_entry:
  assumes "fields_hold m fa offs node" "off \<in> set offs" "length offs < 2 ^ 60"
    and "num_fields c m obj = Ok (of_nat (length offs))"
  shows "display_field c m obj fa (int i) off =
    Ok (field_entry fa node off @ (if i < length offs - 1 then '', '' else ''''))"
proof -
  let ?n = "length offs"
  have off: "0 \<le> sint off" "ptr_offset fa (sint off) = Ok (fa + 8 * off)" "load64 m (fa + 8 * off) = Ok (node off)"
    using assms(1,2) by (auto simp: fields_hold_def ptr_offset_def)
  have pos: "0 < ?n" using assms(2) by (cases offs) auto
  then have sub: "sub_u (dbg c) (of_nat ?n) 1 = Ok (of_nat (?n - 1))"
    using unat_of_nat64 [of ?n] assms(3) by (cases offs) (auto simp: sub_u_def)
  have "sint (of_nat (?n - 1) :: u64) = int (?n - 1)"
    using assms(3) by (simp add: signed_of_nat signed_take_bit_int_eq_self)
  then show ?thesis
    using off sub assms(4) by (auto simp: display_field_def field_entry_def)
qed

lemma display_fields_join:
  assumes "ref_map m p offs" "fields_hold m fa offs node"
    and "num_fields c m obj = Ok (of_nat (length offs))" "i \<le> length offs"
  shows "display_fields c m obj fa p (int i) = Ok (join '', '' (map (field_entry fa node) (drop i offs)))"
  using assms(4)
proof (induction "length offs - i" arbitrary: i)
  case 0
  then have "i = length offs" by simp
  then show ?case
    using ref_map_entry [OF assms(1), of i] by (subst display_fields.simps) simp
next
  case (Suc k)
  then have i: "i < length offs" by simp
  have IH: "display_fields c m obj fa p (int (Suc i)) =
      Ok (join '', '' (map (field_entry fa node) (drop (Suc i) offs)))"
    using Suc.hyps(2) i by (intro Suc.hyps(1)) auto
  have "display_field c m obj fa (int i) (offs ! i) =
      Ok (field_entry fa node (offs ! i) @ (if i < length offs - 1 then '', '' else ''''))"
    using i assms(1-3) by (intro display_field_entry) (auto simp: ref_map_def)
  moreover have "drop i offs = offs ! i # drop (Suc i) offs" using i by (simp add: Cons_nth_drop_Suc)
  moreover have "display_fields c m obj fa p (int i + 1) = display_fields c m obj fa p (int (Suc i))"
    by (simp add: add.commute)
  ultimately show ?case
    using ref_map_entry [OF assms(1), of i] i IH by (subst display_fields.simps) auto
qed

text \<open>
  C36. An object is printed with its class name, its headers and its reference fields: the
  address and the content of each, in the order of the reference map, separated by commas.
\<close>

theorem display_object_lists_fields:
  assumes "obj_rtti c m obj = Ok rtti" "class_name c m rtti = Ok name"
    and "rtti_ref_map c m rtti = Ok p" "ref_map m p offs" "get_fields c obj = Ok fa"
    and "fields_hold m fa offs node" "obj_lock_word c m obj = Ok l"
  shows "display_object c m obj = Ok (''Object(0x'' @ hex obj @ ''), name: ['' @ name @ ''], rtti: '' @ pointer rtti @
    (if uses_lockword c then '', lock_word: '' @ pointer l else '''') @
    '', fields: ['' @ join '', '' (map (field_entry fa node) offs) @ '']'')"
proof -
  have "num_fields c m obj = Ok (of_nat (length offs))"
    using assms(1,3) num_fields_loop_ref_map [OF assms(4), of 0] by (simp add: num_fields_def)
  then have "display_fields c m obj fa p 0 = Ok (join '', '' (map (field_entry fa node) offs))"
    using display_fields_join [OF assms(4,6), of c obj 0] by simp
  then show ?thesis
    using assms by (simp add: display_object_def)
qed


section \<open>Elements\<close>

lemma display_element_word:
  assumes "unat elems + 8 * n < 2 ^ 64" "n < 2 ^ 60" "i < n"
  shows "display_element m elems n i = bindR (load64 m (elems + 8 * of_nat i)) (\<lambda>w.
    Ok (''0x'' @ hex w @ (if i < n - 1 then '', '' else '''')))"
  using ptr_offset_nat [of elems i] assms by (simp add: display_element_def)

lemma foldR_append_texts:
  "foldR (\<lambda>i out. bindR (f i) (\<lambda>s. Ok (out @ s))) is out = Ok text \<longleftrightarrow>
     (\<exists>ss. list_all2 (\<lambda>i s. f i = Ok s) is ss \<and> text = out @ concat ss)"
proof (induction "is" arbitrary: out)
  case (Cons i "is")
  then show ?case by (cases "f i") (auto simp: list_all2_Cons1)
qed auto

text \<open>
  C37. An array is printed word by word whatever its stride is: the output needs a readable
  word at each of the \<open>length\<close> multiples of 8 after the header. For narrow elements
  these lie beyond the array.
\<close>

theorem display_array_reads_words:
  assumes "obj_rtti c m arr = Ok rtti" "class_name c m rtti = Ok name" "array_size c m arr = Ok bytes"
    and "array_length c m arr = Ok len" "elems = arr + of_nat (size_of (ArrayHeader c))"
    and "unat arr + size_of (ArrayHeader c) + 8 * nat (sint len) < 2 ^ 64"
  shows "(\<exists>text. display_array c m arr = Ok text) \<longleftrightarrow>
    list_all (\<lambda>i. \<exists>w. load64 m (elems + 8 * of_nat i) = Ok w) [0..<nat (sint len)]"
proof -
  let ?n = "nat (sint len)"
  have n: "?n < 2 ^ 60" using sint_lt [of len] by simp
  have add: "add_u (dbg c) arr (of_nat (size_of (ArrayHeader c))) = Ok elems"
    using assms(5,6) by simp
  have e: "unat elems + 8 * ?n < 2 ^ 64"
    using assms(5,6) by (simp add: unat_word_ariths)
  have "display_array c m arr = bindR (display_elements m elems ?n) (\<lambda>body.
      Ok (''ArrayHeader(0x'' @ hex arr @ ''), name: ['' @ name @ '']'' @
         '', size: '' @ dec bytes @ '' bytes'' @ '', elements: ['' @ body @ '']''))"
    using assms(1-4) add by (simp add: display_array_def)
  then have "(\<exists>text. display_array c m arr = Ok text) \<longleftrightarrow> (\<exists>body. display_elements m elems ?n = Ok body)"
    by (cases "display_elements m elems ?n") auto
  also have "\<dots> \<longleftrightarrow> (\<exists>ss. list_all2 (\<lambda>i s. display_element m elems ?n i = Ok s) [0..<?n] ss)"
    by (simp add: display_elements_def foldR_append_texts)
  also have "\<dots> \<longleftrightarrow> (\<forall>i<?n. \<exists>s. display_element m elems ?n i = Ok s)"
    by (auto simp: list_all2_conv_all_nth intro!: exI [of _ "map (\<lambda>i. projr (display_element m elems ?n i)) [0..<?n]"])
  also have "\<dots> \<longleftrightarrow> (\<forall>i<?n. \<exists>w. load64 m (elems + 8 * of_nat i) = Ok w)"
    using display_element_word [OF e n, of _ m] by (auto simp: bindR_eq_Ok)
  finally show ?thesis by (simp add: list_all_iff Ball_def)
qed


section \<open>A printed object\<close>

text \<open>A plain object at \<open>0x10000\<close> with two reference fields, of a class named \<open>Ab\<close>.\<close>

definition named_words :: "(u64 \<times> u64) list" where
  "named_words = [(0x1018, 0x3000), (0x3010, 0x3100), (0x3110, 2), (0x3118, 0x00620041), (0x2000, 0), (0x2008, 1), (0x2010, - 1),
     (0x20000, 0x1000), (0x20008, 0), (0x20010, 4 OR push_bit 32 2), (0x20018, 0)] @
     rtti_words 0x1000 5 32 0x2000 @ obj_words 0x10000 0x1000 0 [0x10040, 0]"

lemma units_2: "units m a 2 = bindR (load16 m a) (\<lambda>u. bindR (load16 m (a + 2)) (\<lambda>v. Ok [u, v]))"
  by (simp add: numeral_2_eq_2 bindR_assoc cong: bindR_cong)

lemma named_units: "load16 (word_mem named_words) 0x3118 = Ok 0x41" "load16 (word_mem named_words) 0x311A = Ok 0x62"
  using load16_word_mem [of "0x3118" 0 named_words] load16_word_mem [of "0x3118" 1 named_words]
  by (simp_all add: named_words_def aligned8_def)

lemma latin1_Ab: "latin1 0x41 = CHR ''A''" "latin1 0x62 = CHR ''b''"
  by (simp_all add: latin1_def char_of_def bit_0)

lemma named_links:
  "rtti_name sample_cfg (word_mem named_words) 0x1000 = Ok 0x3000"
  "string_value sample_cfg (word_mem named_words) 0x3000 = Ok 0x3100"
  "array_length sample_cfg (word_mem named_words) 0x3100 = Ok 2"
  "field (CharArray sample_cfg) ''header'' 0x3100 = 0x3100"
  "field (CharArray sample_cfg) ''value'' 0x3100 = 0x3118"
  by (simp_all add: rtti_name_def string_value_def array_length_def named_words_def aligned8_def rtti_words_def field_def layout_defs)

lemma named_class: "class_name sample_cfg (word_mem named_words) 0x1000 = Ok ''Ab''"
  by (simp add: class_name_def named_links units_2 named_units latin1_Ab)

lemma named_fields:
  "ref_map (word_mem named_words) 0x2000 [0, 1]"
  "fields_hold (word_mem named_words) 0x10010 [0, 1] (\<lambda>off. if off = 0 then 0x10040 else 0)"
  by (simp_all add: ref_map_def fields_hold_def LAST_FIELD_OFFSET_def named_words_def abi_defs)

theorem display_object_lists_fields_witness:
  "display_object sample_cfg (word_mem named_words) 0x10000 =
     Ok ''Object(0x10000), name: [Ab], rtti: 0x1000, lock_word: 0x0, fields: [0x10010->0x10040, 0x10018->0x0]''"
proof -
  have "obj_rtti sample_cfg (word_mem named_words) 0x10000 = Ok 0x1000"
    "rtti_ref_map sample_cfg (word_mem named_words) 0x1000 = Ok 0x2000"
    "get_fields sample_cfg 0x10000 = Ok 0x10010" "obj_lock_word sample_cfg (word_mem named_words) 0x10000 = Ok 0"
    by (simp_all add: get_fields_def named_words_def abi_defs)
  from display_object_lists_fields [OF this(1) named_class this(2) named_fields(1) this(3) named_fields(2) this(4)]
  show ?thesis
    by (simp add: hex_def pointer_def field_entry_def digits.simps digit_char_def char_of_def bit_0)
qed

text \<open>
  An array of four 16-bit elements at \<open>0x20000\<close> that ends where the mapped memory ends: its
  32 bytes are all readable, and still it cannot be printed.
\<close>

theorem display_array_reads_words_witness:
  "array_size sample_cfg (word_mem named_words) 0x20000 = Ok 32 \<and> mapped (word_mem named_words) 0x20000 32 \<and>
   \<not> (\<exists>text. display_array sample_cfg (word_mem named_words) 0x20000 = Ok text)"
proof -
  have hdr: "obj_rtti sample_cfg (word_mem named_words) 0x20000 = Ok 0x1000"
    "array_length sample_cfg (word_mem named_words) 0x20000 = Ok 4"
    "array_stride sample_cfg (word_mem named_words) 0x20000 = Ok 2"
    by (simp_all add: array_length_def array_stride_def obj_rtti_def named_words_def aligned8_def rtti_words_def)
  have size: "array_size sample_cfg (word_mem named_words) 0x20000 = Ok 32"
    by (simp add: array_size_def hdr round_to_next_multiple_def)
  have past: "load64 (word_mem named_words) 0x20020 = Err Segv"
    by (simp add: named_words_def aligned8_def rtti_words_def obj_words_def)
  have "mapped (word_mem named_words) 0x20000 (8 * 4)"
    by (rule mapped_word_mem) (simp_all add: named_words_def aligned8_def upt_conv_Cons)
  then show ?thesis
    using display_array_reads_words [OF hdr(1) named_class size hdr(2) refl] size past
    by (auto simp: upt_conv_Cons)
qed

end
