(* ===== verification/Reference_Glue.thy ===== *)
theory Reference_Glue
  imports Config
begin

text \<open>
  \<open>src/mmtk/src/reference_glue.rs\<close>: mmtk-core's own processing of weak references is not
  supported, so the three functions of the trait panic. Weak references are handled by
  the stack of \<open>Weak_Refs\<close> instead.
\<close>

definition set_referent :: "u64 \<Rightarrow> u64 \<Rightarrow> unit res" where
  "set_referent reference referent = Err Unimplemented"

definition get_referent :: "u64 \<Rightarrow> u64 res" where
  "get_referent obj = Err Unimplemented"

definition enqueue_references :: "u64 list \<Rightarrow> u64 \<Rightarrow> unit res" where
  "enqueue_references references tls = Err Unimplemented"

end
