(* ===== verification/Lazy_Statics.thy ===== *)
theory Lazy_Statics
  imports Pointers
begin

text \<open>
  The \<open>lazy_static\<close> constants that cache a value of the runtime (\<open>abi.rs\<close> 17-33,
  \<open>scanning.rs\<close> 55-69, \<open>object_scanning.rs\<close> 9-13, \<open>collection.rs\<close> 22-26). The first use
  calls through \<open>UPCALLS\<close>, which is null before \<open>scalanative_gc_init\<close>, and keeps the answer
  for ever. The other theories read such a constant from the table of upcalls itself; here
  it is shown when that is the same.
\<close>

section \<open>One constant\<close>

text \<open>\<open>cell\<close> and \<open>fill\<close> select the constant in the state, \<open>init\<close> is its initialiser.\<close>

definition force_static ::
    "('l \<Rightarrow> 'a option) \<Rightarrow> ('a \<Rightarrow> 'l \<Rightarrow> 'l) \<Rightarrow> ('l \<Rightarrow> ('a \<times> 'l) res) \<Rightarrow> 'l \<Rightarrow> ('a \<times> 'l) res" where
  "force_static cell fill init l =
     (case cell l of
        Some v \<Rightarrow> Ok (v, l)
      | None \<Rightarrow> bindR (init l) (\<lambda>(v, l). Ok (v, fill v l)))"

locale static_cell =
  fixes cell :: "'l \<Rightarrow> 'a option" and fill :: "'a \<Rightarrow> 'l \<Rightarrow> 'l"
  assumes cell_fill: "cell (fill v l) = Some v"
begin

lemma force_filled: "cell l = Some v \<Longrightarrow> force_static cell fill init l = Ok (v, l)"
  by (simp add: force_static_def)

lemma force_fills: "force_static cell fill init l = Ok (v, l') \<Longrightarrow> cell l' = Some v"
  by (auto simp: force_static_def cell_fill split: option.splits)

text \<open>Whatever initialises it, the value of the first use is that of all later uses.\<close>

lemma force_again:
  "force_static cell fill init l = Ok (v, l') \<Longrightarrow> cell l'' = cell l' \<Longrightarrow> force_static cell fill init' l'' = Ok (v, l'')"
  using force_fills force_filled by metis

end


section \<open>The constants\<close>

record statics =
  array_ids_min_cell :: "i32 option"
  array_ids_max_cell :: "i32 option"
  weak_ref_ids_min_cell :: "i32 option"
  weak_ref_ids_max_cell :: "i32 option"
  weak_ref_field_offset_cell :: "i32 option"
  object_array_id_cell :: "i32 option"
  alignment_cell :: "u64 option"
  inverse_mask_cell :: "u64 option"
  modules_cell :: "u64 option"
  modules_size_cell :: "i32 option"
  context_offset_cell :: "u64 option"

definition no_statics :: statics where
  "no_statics = \<lparr>array_ids_min_cell = None, array_ids_max_cell = None, weak_ref_ids_min_cell = None,
     weak_ref_ids_max_cell = None, weak_ref_field_offset_cell = None, object_array_id_cell = None,
     alignment_cell = None, inverse_mask_cell = None, modules_cell = None, modules_size_cell = None,
     context_offset_cell = None\<rparr>"

text \<open>\<open>((*UPCALLS).f)()\<close>: the table is \<open>None\<close> while the pointer is null.\<close>

definition upcall_value :: "('a upcalls_scheme \<Rightarrow> 'v) \<Rightarrow> 'a upcalls_scheme option \<Rightarrow> 'l \<Rightarrow> ('v \<times> 'l) res" where
  "upcall_value f tbl l = bindR (of_option Segv tbl) (\<lambda>c. Ok (f c, l))"

definition ARRAY_IDS_MIN :: "'a upcalls_scheme option \<Rightarrow> statics \<Rightarrow> (i32 \<times> statics) res" where
  "ARRAY_IDS_MIN tbl = force_static array_ids_min_cell (\<lambda>v l. l\<lparr>array_ids_min_cell := Some v\<rparr>)
     (upcall_value get_array_ids_min tbl)"

definition ARRAY_IDS_MAX :: "'a upcalls_scheme option \<Rightarrow> statics \<Rightarrow> (i32 \<times> statics) res" where
  "ARRAY_IDS_MAX tbl = force_static array_ids_max_cell (\<lambda>v l. l\<lparr>array_ids_max_cell := Some v\<rparr>)
     (upcall_value get_array_ids_max tbl)"

definition WEAK_REF_IDS_MIN :: "'a upcalls_scheme option \<Rightarrow> statics \<Rightarrow> (i32 \<times> statics) res" where
  "WEAK_REF_IDS_MIN tbl = force_static weak_ref_ids_min_cell (\<lambda>v l. l\<lparr>weak_ref_ids_min_cell := Some v\<rparr>)
     (upcall_value get_weak_ref_ids_min tbl)"

definition WEAK_REF_IDS_MAX :: "'a upcalls_scheme option \<Rightarrow> statics \<Rightarrow> (i32 \<times> statics) res" where
  "WEAK_REF_IDS_MAX tbl = force_static weak_ref_ids_max_cell (\<lambda>v l. l\<lparr>weak_ref_ids_max_cell := Some v\<rparr>)
     (upcall_value get_weak_ref_ids_max tbl)"

definition WEAK_REF_FIELD_OFFSET :: "'a upcalls_scheme option \<Rightarrow> statics \<Rightarrow> (i32 \<times> statics) res" where
  "WEAK_REF_FIELD_OFFSET tbl = force_static weak_ref_field_offset_cell (\<lambda>v l. l\<lparr>weak_ref_field_offset_cell := Some v\<rparr>)
     (upcall_value get_weak_ref_field_offset tbl)"

definition OBJECT_ARRAY_ID :: "'a upcalls_scheme option \<Rightarrow> statics \<Rightarrow> (i32 \<times> statics) res" where
  "OBJECT_ARRAY_ID tbl = force_static object_array_id_cell (\<lambda>v l. l\<lparr>object_array_id_cell := Some v\<rparr>)
     (upcall_value get_object_array_id tbl)"

definition ALLOCATION_ALIGNMENT_LAZY :: "'a upcalls_scheme option \<Rightarrow> statics \<Rightarrow> (u64 \<times> statics) res" where
  "ALLOCATION_ALIGNMENT_LAZY tbl = force_static alignment_cell (\<lambda>v l. l\<lparr>alignment_cell := Some v\<rparr>)
     (upcall_value get_allocation_alignment tbl)"

definition ALLOCATION_ALIGNMENT_INVERSE_MASK ::
    "bool \<Rightarrow> 'a upcalls_scheme option \<Rightarrow> statics \<Rightarrow> (u64 \<times> statics) res" where
  "ALLOCATION_ALIGNMENT_INVERSE_MASK checks tbl = force_static inverse_mask_cell (\<lambda>v l. l\<lparr>inverse_mask_cell := Some v\<rparr>)
     (\<lambda>l. bindR (ALLOCATION_ALIGNMENT_LAZY tbl l) (\<lambda>(a, l). bindR (sub_u checks a 1) (\<lambda>x. Ok (NOT x, l))))"

definition MODULES :: "'a upcalls_scheme option \<Rightarrow> statics \<Rightarrow> (u64 \<times> statics) res" where
  "MODULES tbl = force_static modules_cell (\<lambda>v l. l\<lparr>modules_cell := Some v\<rparr>) (upcall_value get_modules tbl)"

definition MODULES_SIZE :: "'a upcalls_scheme option \<Rightarrow> statics \<Rightarrow> (i32 \<times> statics) res" where
  "MODULES_SIZE tbl = force_static modules_size_cell (\<lambda>v l. l\<lparr>modules_size_cell := Some v\<rparr>)
     (upcall_value get_modules_size tbl)"

definition OFFSET_OF_MUTATOR_CONTEXT :: "'a upcalls_scheme option \<Rightarrow> statics \<Rightarrow> (u64 \<times> statics) res" where
  "OFFSET_OF_MUTATOR_CONTEXT tbl = force_static context_offset_cell (\<lambda>v l. l\<lparr>context_offset_cell := Some v\<rparr>)
     (upcall_value get_mutator_context_offset tbl)"

interpretation array_ids_min: static_cell array_ids_min_cell "\<lambda>v l. l\<lparr>array_ids_min_cell := Some v\<rparr>"
  by unfold_locales simp

interpretation array_ids_max: static_cell array_ids_max_cell "\<lambda>v l. l\<lparr>array_ids_max_cell := Some v\<rparr>"
  by unfold_locales simp

interpretation weak_ref_ids_min: static_cell weak_ref_ids_min_cell "\<lambda>v l. l\<lparr>weak_ref_ids_min_cell := Some v\<rparr>"
  by unfold_locales simp

interpretation weak_ref_ids_max: static_cell weak_ref_ids_max_cell "\<lambda>v l. l\<lparr>weak_ref_ids_max_cell := Some v\<rparr>"
  by unfold_locales simp

interpretation weak_ref_field_offset: static_cell weak_ref_field_offset_cell "\<lambda>v l. l\<lparr>weak_ref_field_offset_cell := Some v\<rparr>"
  by unfold_locales simp

interpretation object_array_id: static_cell object_array_id_cell "\<lambda>v l. l\<lparr>object_array_id_cell := Some v\<rparr>"
  by unfold_locales simp

interpretation alignment: static_cell alignment_cell "\<lambda>v l. l\<lparr>alignment_cell := Some v\<rparr>"
  by unfold_locales simp

interpretation mask_static: static_cell inverse_mask_cell "\<lambda>v l. l\<lparr>inverse_mask_cell := Some v\<rparr>"
  by unfold_locales simp

interpretation modules_static: static_cell modules_cell "\<lambda>v l. l\<lparr>modules_cell := Some v\<rparr>"
  by unfold_locales simp

interpretation modules_size: static_cell modules_size_cell "\<lambda>v l. l\<lparr>modules_size_cell := Some v\<rparr>"
  by unfold_locales simp

interpretation context_offset: static_cell context_offset_cell "\<lambda>v l. l\<lparr>context_offset_cell := Some v\<rparr>"
  by unfold_locales simp


section \<open>Any sequence of uses\<close>

datatype static = Array_ids_min | Array_ids_max | Weak_ref_ids_min | Weak_ref_ids_max | Weak_ref_field_offset
  | Object_array_id | Alignment | Inverse_mask | Modules | Modules_size | Context_offset

text \<open>There are finitely many, so that statements about all of them compute.\<close>

instantiation static :: enum
begin

definition enum_static :: "static list" where
  "enum_static =
    [Array_ids_min, Array_ids_max, Weak_ref_ids_min, Weak_ref_ids_max, Weak_ref_field_offset,
     Object_array_id, Alignment, Inverse_mask, Modules, Modules_size, Context_offset]"

definition enum_all_static :: "(static \<Rightarrow> bool) \<Rightarrow> bool" where
  "enum_all_static P \<longleftrightarrow> list_all P enum_class.enum"

definition enum_ex_static :: "(static \<Rightarrow> bool) \<Rightarrow> bool" where
  "enum_ex_static P \<longleftrightarrow> list_ex P enum_class.enum"

instance
proof
  show all: "UNIV = set (enum_class.enum :: static list)"
    by (auto simp: enum_static_def intro: static.exhaust)
  show "distinct (enum_class.enum :: static list)" by (simp add: enum_static_def)
  show "enum_class.enum_all P \<longleftrightarrow> Ball UNIV P" for P :: "static \<Rightarrow> bool"
    by (simp add: enum_all_static_def all list_all_iff)
  show "enum_class.enum_ex P \<longleftrightarrow> Bex UNIV P" for P :: "static \<Rightarrow> bool"
    by (simp add: enum_ex_static_def all list_ex_iff)
qed

end

definition narrow :: "(i32 \<times> 'l) res \<Rightarrow> ((i32 + u64) \<times> 'l) res" where
  "narrow r = bindR r (\<lambda>(v, l). Ok (Inl v, l))"

definition wide :: "(u64 \<times> 'l) res \<Rightarrow> ((i32 + u64) \<times> 'l) res" where
  "wide r = bindR r (\<lambda>(v, l). Ok (Inr v, l))"

fun read_static ::
    "bool \<Rightarrow> 'a upcalls_scheme option \<Rightarrow> static \<Rightarrow> statics \<Rightarrow> ((i32 + u64) \<times> statics) res" where
  "read_static d tbl Array_ids_min l = narrow (ARRAY_IDS_MIN tbl l)"
| "read_static d tbl Array_ids_max l = narrow (ARRAY_IDS_MAX tbl l)"
| "read_static d tbl Weak_ref_ids_min l = narrow (WEAK_REF_IDS_MIN tbl l)"
| "read_static d tbl Weak_ref_ids_max l = narrow (WEAK_REF_IDS_MAX tbl l)"
| "read_static d tbl Weak_ref_field_offset l = narrow (WEAK_REF_FIELD_OFFSET tbl l)"
| "read_static d tbl Object_array_id l = narrow (OBJECT_ARRAY_ID tbl l)"
| "read_static d tbl Alignment l = wide (ALLOCATION_ALIGNMENT_LAZY tbl l)"
| "read_static d tbl Inverse_mask l = wide (ALLOCATION_ALIGNMENT_INVERSE_MASK d tbl l)"
| "read_static d tbl Modules l = wide (MODULES tbl l)"
| "read_static d tbl Modules_size l = narrow (MODULES_SIZE tbl l)"
| "read_static d tbl Context_offset l = wide (OFFSET_OF_MUTATOR_CONTEXT tbl l)"

definition use_static :: "bool \<Rightarrow> 'a upcalls_scheme option \<times> static \<Rightarrow> statics \<Rightarrow> statics res" where
  "use_static d = (\<lambda>(tbl, s) l. bindR (read_static d tbl s l) (\<lambda>(_, l). Ok l))"

text \<open>What a constant holds, and what the table \<open>c\<close> gives for it.\<close>

fun held :: "static \<Rightarrow> statics \<Rightarrow> (i32 + u64) option" where
  "held Array_ids_min l = map_option Inl (array_ids_min_cell l)"
| "held Array_ids_max l = map_option Inl (array_ids_max_cell l)"
| "held Weak_ref_ids_min l = map_option Inl (weak_ref_ids_min_cell l)"
| "held Weak_ref_ids_max l = map_option Inl (weak_ref_ids_max_cell l)"
| "held Weak_ref_field_offset l = map_option Inl (weak_ref_field_offset_cell l)"
| "held Object_array_id l = map_option Inl (object_array_id_cell l)"
| "held Alignment l = map_option Inr (alignment_cell l)"
| "held Inverse_mask l = map_option Inr (inverse_mask_cell l)"
| "held Modules l = map_option Inr (modules_cell l)"
| "held Modules_size l = map_option Inl (modules_size_cell l)"
| "held Context_offset l = map_option Inr (context_offset_cell l)"

fun table_value :: "'a upcalls_scheme \<Rightarrow> static \<Rightarrow> i32 + u64" where
  "table_value c Array_ids_min = Inl (get_array_ids_min c)"
| "table_value c Array_ids_max = Inl (get_array_ids_max c)"
| "table_value c Weak_ref_ids_min = Inl (get_weak_ref_ids_min c)"
| "table_value c Weak_ref_ids_max = Inl (get_weak_ref_ids_max c)"
| "table_value c Weak_ref_field_offset = Inl (get_weak_ref_field_offset c)"
| "table_value c Object_array_id = Inl (get_object_array_id c)"
| "table_value c Alignment = Inr (get_allocation_alignment c)"
| "table_value c Inverse_mask = Inr (NOT (get_allocation_alignment c - 1))"
| "table_value c Modules = Inr (get_modules c)"
| "table_value c Modules_size = Inl (get_modules_size c)"
| "table_value c Context_offset = Inr (get_mutator_context_offset c)"

lemmas statics_defs = ARRAY_IDS_MIN_def ARRAY_IDS_MAX_def WEAK_REF_IDS_MIN_def WEAK_REF_IDS_MAX_def
  WEAK_REF_FIELD_OFFSET_def OBJECT_ARRAY_ID_def ALLOCATION_ALIGNMENT_LAZY_def
  ALLOCATION_ALIGNMENT_INVERSE_MASK_def MODULES_def MODULES_SIZE_def OFFSET_OF_MUTATOR_CONTEXT_def

lemmas reading = narrow_def wide_def statics_defs force_static_def upcall_value_def

text \<open>A constant that holds a value answers it, whatever the table has become.\<close>

lemmas forced = array_ids_min.force_filled array_ids_max.force_filled weak_ref_ids_min.force_filled weak_ref_ids_max.force_filled
  weak_ref_field_offset.force_filled object_array_id.force_filled alignment.force_filled mask_static.force_filled
  modules_static.force_filled modules_size.force_filled context_offset.force_filled

lemmas filled = array_ids_min.force_fills array_ids_max.force_fills weak_ref_ids_min.force_fills weak_ref_ids_max.force_fills
  weak_ref_field_offset.force_fills object_array_id.force_fills alignment.force_fills mask_static.force_fills
  modules_static.force_fills modules_size.force_fills context_offset.force_fills

lemma read_held: "held s l = Some v \<Longrightarrow> read_static d tbl s l = Ok (v, l)"
  by (cases s) (auto simp: narrow_def wide_def statics_defs forced)

text \<open>A read leaves the constant filled, and no other constant loses its value.\<close>

lemma read_fills: "read_static d tbl s l = Ok (v, l') \<Longrightarrow> held s l' = Some v"
  by (cases s) (auto simp: narrow_def wide_def statics_defs dest: filled)

lemma read_keeps:
  assumes "read_static d tbl s l = Ok (v, l')" "held r l = Some w"
  shows "held r l' = Some w"
proof (cases s)
  case Inverse_mask
  with assms show ?thesis by (cases r) (auto simp: reading split: option.splits)
qed (use assms in \<open>cases r; auto simp: reading split: option.splits\<close>)+

lemma use_keeps: "use_static d ts l = Ok l' \<Longrightarrow> held r l = Some w \<Longrightarrow> held r l' = Some w"
  by (auto simp: use_static_def split: prod.splits dest: read_keeps)

lemma uses_keep: "foldR (use_static d) us l = Ok l' \<Longrightarrow> held r l = Some w \<Longrightarrow> held r l' = Some w"
  by (rule foldR_invariant [where P = "\<lambda>l. held r l = Some w"]) (auto intro: use_keeps)

text \<open>All values come from the table in force when they were read.\<close>

definition statics_of :: "'a upcalls_scheme \<Rightarrow> statics \<Rightarrow> bool" where
  "statics_of c l \<longleftrightarrow> (\<forall>s v. held s l = Some v \<longrightarrow> v = table_value c s)"

lemma statics_of_empty: "statics_of c no_statics"
  unfolding statics_of_def
proof (intro allI impI)
  fix s v
  show "held s no_statics = Some v \<Longrightarrow> v = table_value c s"
    by (cases s) (auto simp: no_statics_def)
qed

lemma read_new:
  assumes "read_static d (Some c) s l = Ok (v, l')" "held r l = None" "held r l' = Some w"
    and "statics_of c l"
  shows "w = table_value c r"
proof -
  have "alignment_cell l = Some a \<Longrightarrow> a = get_allocation_alignment c" for a
    using assms(4) unfolding statics_of_def by (metis held.simps(7) option.simps(9) sum.inject(2) table_value.simps(7))
  with assms(1-3) show ?thesis
    by (cases s; cases r) (auto simp: reading sub_u_def split: option.splits if_splits)
qed

lemma read_statics_of:
  assumes "read_static d (Some c) s l = Ok (v, l')" "statics_of c l"
  shows "statics_of c l'" "v = table_value c s"
proof -
  show new: "statics_of c l'"
    unfolding statics_of_def
  proof (intro allI impI)
    fix r w
    assume w: "held r l' = Some w"
    show "w = table_value c r"
    proof (cases "held r l")
      case None
      then show ?thesis using read_new [OF assms(1) None w assms(2)] by simp
    next
      case (Some x)
      then show ?thesis using read_keeps [OF assms(1) Some] w assms(2) by (simp add: statics_of_def)
    qed
  qed
  show "v = table_value c s" using read_fills [OF assms(1)] new by (simp add: statics_of_def)
qed

lemma use_statics_of: "use_static d (Some c, s) l = Ok l' \<Longrightarrow> statics_of c l \<Longrightarrow> statics_of c l'"
  by (auto simp: use_static_def dest: read_statics_of)

lemma uses_statics_of:
  "foldR (use_static d) us l = Ok l' \<Longrightarrow> (\<And>tbl s. (tbl, s) \<in> set us \<Longrightarrow> tbl = Some c) \<Longrightarrow> statics_of c l \<Longrightarrow> statics_of c l'"
  by (rule foldR_invariant [where P = "statics_of c"]) (force intro: use_statics_of)+

lemma read_succeeds:
  "\<not> d \<or> get_allocation_alignment c \<noteq> 0 \<Longrightarrow> statics_of c l \<Longrightarrow> \<exists>v l'. read_static d (Some c) s l = Ok (v, l')"
proof -
  assume d: "\<not> d \<or> get_allocation_alignment c \<noteq> 0" and l: "statics_of c l"
  have one: "get_allocation_alignment c \<noteq> 0 \<Longrightarrow> \<not> unat (get_allocation_alignment c) < unat (1::u64)"
    by (simp add: unat_eq_zero)
  have "alignment_cell l = Some a \<Longrightarrow> a = get_allocation_alignment c" for a
    using l unfolding statics_of_def by (metis held.simps(7) option.simps(9) sum.inject(2) table_value.simps(7))
  then show ?thesis
    using d one by (cases s) (auto simp: reading sub_u_def split: option.splits)
qed


section \<open>The table of the first use decides\<close>

text \<open>
  What the first use of a constant under the table \<open>c\<close> gives in the state \<open>l\<close>: the inverse mask is
  computed from the alignment, which may already hold the value of another table.
\<close>

definition alignment_in :: "'a upcalls_scheme \<Rightarrow> statics \<Rightarrow> u64" where
  "alignment_in c l = (case alignment_cell l of None \<Rightarrow> get_allocation_alignment c | Some a \<Rightarrow> a)"

definition first_value :: "'a upcalls_scheme \<Rightarrow> statics \<Rightarrow> static \<Rightarrow> i32 + u64" where
  "first_value c l s = (if s = Inverse_mask then Inr (NOT (alignment_in c l - 1)) else table_value c s)"

lemma read_first:
  assumes "held s l = None" "s = Inverse_mask \<Longrightarrow> \<not> d \<or> alignment_in c l \<noteq> 0"
  shows "\<exists>l'. read_static d (Some c) s l = Ok (first_value c l s, l')"
proof (cases s)
  case Inverse_mask
  with assms show ?thesis
    by (auto simp: reading first_value_def alignment_in_def sub_u_def unat_eq_zero not_less_eq Suc_le_eq unat_gt_0
        split: option.splits)
qed (use assms(1) in \<open>auto simp: reading first_value_def\<close>)

text \<open>
  C23. A constant answers for ever what the table of upcalls in force at its first use answers.
  Whatever other constants were used before, under whatever tables, the first use of a constant under \<open>c\<close>
  gives the value \<open>c\<close> has for it; only the inverse mask is computed from an alignment
  cached earlier if there is one, even of another table. Any further uses of constants, also
  under the table of a second \<open>scalanative_gc_init\<close> or after it is null, leave that value.
\<close>

theorem first_table_decides:
  fixes c :: "'a upcalls_scheme"
  assumes "held s l = None" "s = Inverse_mask \<Longrightarrow> \<not> d \<or> alignment_in c l \<noteq> 0"
  shows "\<exists>l1. read_static d (Some c) s l = Ok (first_value c l s, l1) \<and>
    (\<forall>(later :: ('a upcalls_scheme option \<times> static) list) (tbl :: 'a upcalls_scheme option) l2. foldR (use_static d) later l1 = Ok l2 \<longrightarrow>
      read_static d tbl s l2 = Ok (first_value c l s, l2))"
proof -
  obtain l1 where read: "read_static d (Some c) s l = Ok (first_value c l s, l1)"
    using read_first [OF assms] by blast
  have "read_static d tbl s l2 = Ok (first_value c l s, l2)"
    if "foldR (use_static d) later l1 = Ok l2" for later tbl l2
    using uses_keep [OF that read_fills [OF read]] by (rule read_held)
  with read show ?thesis by blast
qed

text \<open>The alignment was cached under one table, the mask is first used under another.\<close>

theorem first_table_decides_witness:
  "\<exists>l l1 l2. foldR (use_static True) [(Some sample_cfg, Alignment)] no_statics = Ok l \<and>
    read_static True (Some (sample_cfg\<lparr>get_allocation_alignment := 8\<rparr>)) Inverse_mask l = Ok (Inr (NOT 15), l1) \<and>
    foldR (use_static True) [(Some sample_cfg, Modules)] l1 = Ok l2 \<and>
    read_static True (None :: upcalls option) Inverse_mask l2 = Ok (Inr (NOT 15), l2)"
proof -
  let ?c = "sample_cfg\<lparr>get_allocation_alignment := 8\<rparr>"
  obtain l where l: "foldR (use_static True) [(Some sample_cfg, Alignment)] no_statics = Ok l"
    "held Inverse_mask l = None" "alignment_cell l = Some 16"
    by (simp add: use_static_def reading no_statics_def sample_cfg_def)
  then have v: "alignment_in ?c l = 16" "first_value ?c l Inverse_mask = Inr (NOT 15)"
    by (simp_all add: alignment_in_def first_value_def)
  then obtain l1 where l1: "read_static True (Some ?c) Inverse_mask l = Ok (Inr (NOT 15), l1)"
    and later: "\<And>(later :: (upcalls option \<times> static) list) (tbl :: upcalls option) l2. foldR (use_static True) later l1 = Ok l2 \<Longrightarrow>
      read_static True tbl Inverse_mask l2 = Ok (Inr (NOT 15), l2)"
    using first_table_decides [of Inverse_mask l True ?c] l(2) by auto
  have "\<exists>l2. foldR (use_static True) [(Some sample_cfg, Modules)] l1 = Ok l2"
    by (cases "modules_cell l1") (simp_all add: use_static_def reading)
  then show ?thesis using l(1) l1 later by blast
qed

text \<open>While one table is in force, every constant has its value.\<close>

lemma one_table:
  assumes "\<not> d \<or> get_allocation_alignment c \<noteq> 0"
    and "foldR (use_static d) (map (Pair (Some c)) before) no_statics = Ok l"
  shows "\<exists>l'. read_static d (Some c) s l = Ok (table_value c s, l')"
proof -
  have l: "statics_of c l"
    by (rule uses_statics_of [OF assms(2)]) (auto intro: statics_of_empty)
  obtain v l' where "read_static d (Some c) s l = Ok (v, l')"
    using read_succeeds [OF assms(1) l] by blast
  with read_statics_of(2) [OF this l] show ?thesis by blast
qed

text \<open>Before \<open>scalanative_gc_init\<close> has set the table, the first use dereferences a null pointer.\<close>

lemma unset_table_faults:
  fixes none :: "'a upcalls_scheme option"
  assumes "none = None" "foldR (use_static d) (map (Pair none) before) no_statics = Ok l"
  shows "before = []" "read_static d none s l = Err Segv"
proof -
  have first: "read_static d none r no_statics = Err Segv" for r
    using assms(1) by (cases r) (auto simp: reading no_statics_def)
  show "before = []" "read_static d none s l = Err Segv"
    using assms(2) first by (cases before; auto simp: use_static_def)+
qed

end
