(* ===== verification/Active_Plan.thy ===== *)
theory Active_Plan
  imports Abi
begin

text \<open>
  The runtime's mutators as mmtk-core sees them (\<open>src/mmtk/src/active_plan.rs\<close>) and the
  closure that carries a Rust callback over the C boundary (\<open>MutatorClosure\<close> in \<open>lib.rs\<close>,
  \<open>invoke_mutator_closure\<close> in \<open>api.rs\<close>). \<open>'s\<close> is the state the callback captures.
\<close>

section \<open>Closures\<close>

record 's mutator_closure =
  closure_func :: "u64 \<Rightarrow> 's \<Rightarrow> 's res"
  closure_data :: 's

definition call_rust_closure :: "'a upcalls_scheme \<Rightarrow> (u64 \<Rightarrow> 's \<Rightarrow> 's) \<Rightarrow> u64 \<Rightarrow> 's \<Rightarrow> 's res" where
  "call_rust_closure c callback mutator s =
     bindR (debug_assert c (is_ptr_aligned c mutator)) (\<lambda>_. Ok (callback mutator s))"

definition from_rust_closure :: "'a upcalls_scheme \<Rightarrow> (u64 \<Rightarrow> 's \<Rightarrow> 's) \<Rightarrow> 's \<Rightarrow> 's mutator_closure" where
  "from_rust_closure c callback s = \<lparr>closure_func = call_rust_closure c callback, closure_data = s\<rparr>"

definition invoke_mutator_closure :: "'s mutator_closure \<Rightarrow> u64 \<Rightarrow> 's mutator_closure res" where
  "invoke_mutator_closure cl mutator =
     bindR (closure_func cl mutator (closure_data cl)) (\<lambda>s. Ok (cl\<lparr>closure_data := s\<rparr>))"


section \<open>The iterator over mutators\<close>

record mutator_iterator =
  mutator_queue :: "u64 list"

text \<open>The runtime's \<open>get_mutators\<close> invokes the closure it is given on each mutator.\<close>

definition run_get_mutators :: "'a upcalls_scheme \<Rightarrow> 's mutator_closure \<Rightarrow> 's mutator_closure res" where
  "run_get_mutators c cl = foldR (\<lambda>m cl. invoke_mutator_closure cl m) (get_mutators c) cl"

definition iterator_new :: "'a upcalls_scheme \<Rightarrow> mutator_iterator res" where
  "iterator_new c =
     bindR (run_get_mutators c (from_rust_closure c (\<lambda>mutator mutators. mutators @ [mutator]) [])) (\<lambda>cl.
     Ok \<lparr>mutator_queue = closure_data cl\<rparr>)"

definition iterator_next :: "mutator_iterator \<Rightarrow> u64 option \<times> mutator_iterator" where
  "iterator_next it =
     (case mutator_queue it of
        [] \<Rightarrow> (None, it)
      | m # ms \<Rightarrow> (Some m, it\<lparr>mutator_queue := ms\<rparr>))"


section \<open>The active plan\<close>

definition plan_number_of_mutators :: "'a upcalls_scheme \<Rightarrow> u64" where
  "plan_number_of_mutators c = number_of_mutators c"

definition plan_is_mutator :: "'a upcalls_scheme \<Rightarrow> u64 \<Rightarrow> bool" where
  "plan_is_mutator c tls = is_mutator c tls"

definition plan_mutator :: "'a upcalls_scheme \<Rightarrow> u64 \<Rightarrow> u64" where
  "plan_mutator c tls = get_mmtk_mutator c tls"

definition plan_mutators :: "'a upcalls_scheme \<Rightarrow> mutator_iterator res" where
  "plan_mutators c = iterator_new c"


section \<open>Iteration\<close>

interpretation mutators: source iterator_next mutator_queue
proof unfold_locales
  fix it :: mutator_iterator and m ms assume "mutator_queue it = m # ms"
  then show "\<exists>it'. iterator_next it = (Some m, it') \<and> mutator_queue it' = ms"
    by (intro exI [of _ "it\<lparr>mutator_queue := ms\<rparr>"]) (simp add: iterator_next_def)
qed (simp add: iterator_next_def)

lemma run_push_back:
  assumes "dbg c \<longrightarrow> list_all (\<lambda>m. is_ptr_aligned c m = Ok True) ms"
  shows "foldR (\<lambda>m cl. invoke_mutator_closure cl m) ms (from_rust_closure c (\<lambda>mutator mutators. mutators @ [mutator]) xs) =
    Ok (from_rust_closure c (\<lambda>mutator mutators. mutators @ [mutator]) (xs @ ms))"
  using assms
proof (induction ms arbitrary: xs)
  case (Cons m ms)
  then have "debug_assert c (is_ptr_aligned c m) = Ok ()" by (auto simp: debug_assert_def)
  then have "invoke_mutator_closure (from_rust_closure c (\<lambda>mutator mutators. mutators @ [mutator]) xs) m =
      Ok (from_rust_closure c (\<lambda>mutator mutators. mutators @ [mutator]) (xs @ [m]))"
    by (simp add: invoke_mutator_closure_def from_rust_closure_def call_rust_closure_def)
  then show ?case using Cons by simp
qed simp

text \<open>
  C34. Iterating over the mutators gives every mutator the runtime reports, once and in
  its order, and then \<open>None\<close> for ever.
\<close>

theorem mutators_iterated_once:
  assumes "dbg c \<longrightarrow> list_all (\<lambda>m. is_ptr_aligned c m = Ok True) (get_mutators c)"
  shows "\<exists>it. plan_mutators c = Ok it \<and>
    (\<forall>n. pull iterator_next (length (get_mutators c) + n) it = map Some (get_mutators c) @ replicate n None)"
  using run_push_back [OF assms, of "[]"] mutators.pull_all [of "\<lparr>mutator_queue = get_mutators c\<rparr>"]
  by (simp add: plan_mutators_def iterator_new_def run_get_mutators_def from_rust_closure_def)

lemma sample_aligned [simp]: "list_all (\<lambda>m. is_ptr_aligned sample_cfg m = Ok True) [0x5100, 0x5200]"
  by simp

theorem mutators_iterated_once_witness:
  "\<exists>it. plan_mutators sample_cfg = Ok it \<and>
    (\<forall>n. pull iterator_next (length (get_mutators sample_cfg) + n) it = map Some (get_mutators sample_cfg) @ replicate n None)"
  by (rule mutators_iterated_once) simp

end
