(* ===== verification/Api.thy ===== *)
theory Api
  imports Object_Scan_Props Active_Plan
begin

text \<open>
  The C interface (\<open>src/mmtk/src/api.rs\<close>), the binding object (\<open>binding.rs\<close>) and the globals
  of \<open>lib.rs\<close>: the builder, the lazily built \<open>SINGLETON\<close>, \<open>MMTK_INITIALIZED\<close> and \<open>BINDING\<close>.
  What mmtk-core does behind its own functions is a parameter: a function from calls to
  results over its state \<open>'k\<close>, with \<open>'o\<close> its options. Constants of mmtk-core are
  parameters too.
\<close>

section \<open>mmtk-core behind the interface\<close>

datatype gc_trigger = FixedHeapSize u64 | DynamicHeapSize u64 u64

datatype semantics = Default | Immortal | Los | Code | ReadOnly | LargeCode | NonMoving

text \<open>The calls the interface makes, with their arguments.\<close>

datatype core_call =
    Bind_mutator u64 | Destroy_mutator u64 | Flush_mutator u64
  | Alloc u64 u64 u64 u64 semantics | Post_alloc u64 u64 u64 semantics
  | Start_control_collector u64 u64 | Start_worker u64 u64 | Initialize_collection u64
  | Disable_collection | Enable_collection | Used_bytes | Free_bytes | Total_bytes
  | Is_live_object u64 | Is_reachable u64 | Is_mmtk_object u64 | Is_aligned_to u64 u64 | Is_movable u64 | Is_in_mmtk_spaces u64 | Is_mapped_address u64
  | Handle_user_collection_request u64
  | Add_weak_candidate u64 | Add_soft_candidate u64 | Add_phantom_candidate u64
  | Harness_begin u64 | Harness_end | Starting_heap_address | Last_heap_address
  | Malloc u64 | Calloc u64 u64 | Realloc u64 u64 | Free u64
  | Counted_malloc u64 | Counted_calloc u64 u64 | Realloc_with_old_size u64 u64 u64 | Free_with_size u64 u64

record ('o, 'k) core_api =
  default_options :: 'o
  set_plan_immix :: "'o \<Rightarrow> 'o"
  set_gc_trigger :: "gc_trigger \<Rightarrow> 'o \<Rightarrow> bool \<times> 'o"
  process_option :: "u8 list \<Rightarrow> u8 list \<Rightarrow> 'o \<Rightarrow> bool \<times> 'o"
  core_init :: "'o \<Rightarrow> 'k \<Rightarrow> 'k"
  core_call :: "core_call \<Rightarrow> 'k \<Rightarrow> u64 \<times> 'k"
  max_non_los_default_alloc_bytes :: "'k \<Rightarrow> u64"


section \<open>The process\<close>

record scalanative_binding =
  binding_upcalls :: u64

text \<open>
  \<open>core\<close>: all state of mmtk-core, its statics included; \<open>singleton_built\<close>: whether \<open>SINGLETON\<close>
  has been forced. \<open>live_mutators\<close>: the boxes handed out by \<open>mmtk_bind_mutator\<close> and not yet
  destroyed.
\<close>

record ('o, 'k) process =
  builder :: 'o
  core :: 'k
  singleton_built :: bool
  mmtk_initialized :: bool
  binding_cell :: "scalanative_binding option"
  live_mutators :: "u64 set"

definition start_process :: "('o, 'k) core_api \<Rightarrow> 'k \<Rightarrow> ('o, 'k) process" where
  "start_process k statics = \<lparr>builder = default_options k, core = statics, singleton_built = False,
     mmtk_initialized = False, binding_cell = None, live_mutators = {}\<rparr>"

text \<open>\<open>SINGLETON\<close> is built from the builder's options at its first use, whoever uses it.\<close>

definition force_singleton ::
    "'a build_scheme \<Rightarrow> ('o, 'k) core_api \<Rightarrow> ('o, 'k) process \<Rightarrow> ('o, 'k) process res" where
  "force_singleton c k p =
     (if singleton_built p then Ok p
      else bindR (debug_assert c (Ok (\<not> mmtk_initialized p))) (\<lambda>_.
           Ok (p\<lparr>core := core_init k (builder p) (core p), singleton_built := True, mmtk_initialized := True\<rparr>)))"

definition mmtk_init ::
    "'a build_scheme \<Rightarrow> ('o, 'k) core_api \<Rightarrow> u64 \<Rightarrow> u64 \<Rightarrow> ('o, 'k) process \<Rightarrow> ('o, 'k) process res" where
  "mmtk_init c k min_heap_size max_heap_size p =
     (let policy = (if min_heap_size = max_heap_size then FixedHeapSize min_heap_size
                    else DynamicHeapSize min_heap_size max_heap_size) in
      case set_gc_trigger k policy (set_plan_immix k (builder p)) of (success, options) \<Rightarrow>
      let p = p\<lparr>builder := options\<rparr> in
      bindR (debug_assert c (Ok success)) (\<lambda>_.
      bindR (debug_assert c (Ok (\<not> mmtk_initialized p))) (\<lambda>_.
      force_singleton c k p)))"

definition binding_new :: "u64 \<Rightarrow> scalanative_binding" where
  "binding_new upcalls = \<lparr>binding_upcalls = upcalls\<rparr>"

definition mmtk_init_binding ::
    "'a build_scheme \<Rightarrow> ('o, 'k) core_api \<Rightarrow> u64 \<Rightarrow> ('o, 'k) process \<Rightarrow> ('o, 'k) process res" where
  "mmtk_init_binding c k upcalls p =
     bindR (force_singleton c k p) (\<lambda>p.
     case binding_cell p of
       Some b \<Rightarrow> Err Panicked
     | None \<Rightarrow> Ok (p\<lparr>binding_cell := Some (binding_new upcalls)\<rparr>))"

definition binding :: "('o, 'k) process \<Rightarrow> scalanative_binding res" where
  "binding p = of_option Panicked (binding_cell p)"


section \<open>Calls into mmtk-core\<close>

text \<open>Calls that take \<open>&SINGLETON\<close> force it first; the others act on mmtk-core as it is.\<close>

definition call_core ::
    "('o, 'k) core_api \<Rightarrow> core_call \<Rightarrow> ('o, 'k) process \<Rightarrow> u64 \<times> ('o, 'k) process" where
  "call_core k call p = (case core_call k call (core p) of (r, mm) \<Rightarrow> (r, p\<lparr>core := mm\<rparr>))"

definition call_singleton ::
    "'a build_scheme \<Rightarrow> ('o, 'k) core_api \<Rightarrow> core_call \<Rightarrow> ('o, 'k) process \<Rightarrow> (u64 \<times> ('o, 'k) process) res" where
  "call_singleton c k call p = bindR (force_singleton c k p) (\<lambda>p. Ok (call_core k call p))"

text \<open>The box of a mutator belongs to the runtime from \<open>mmtk_bind_mutator\<close> to \<open>mmtk_destroy_mutator\<close>.\<close>

definition mmtk_bind_mutator ::
    "'a build_scheme \<Rightarrow> ('o, 'k) core_api \<Rightarrow> u64 \<Rightarrow> ('o, 'k) process \<Rightarrow> (u64 \<times> ('o, 'k) process) res" where
  "mmtk_bind_mutator c k tls p =
     bindR (call_singleton c k (Bind_mutator tls) p) (\<lambda>(m, p).
     Ok (m, p\<lparr>live_mutators := insert m (live_mutators p)\<rparr>))"

definition with_mutator :: "u64 \<Rightarrow> ('o, 'k) process \<Rightarrow> unit res" where
  "with_mutator m p = guardR Bad_buffer (m \<in> live_mutators p)"

definition mmtk_destroy_mutator ::
    "('o, 'k) core_api \<Rightarrow> u64 \<Rightarrow> ('o, 'k) process \<Rightarrow> ('o, 'k) process res" where
  "mmtk_destroy_mutator k m p =
     bindR (with_mutator m p) (\<lambda>_.
     case call_core k (Destroy_mutator m) p of (_, p) \<Rightarrow>
     Ok (p\<lparr>live_mutators := live_mutators p - {m}\<rparr>))"

definition mmtk_flush_mutator ::
    "('o, 'k) core_api \<Rightarrow> u64 \<Rightarrow> ('o, 'k) process \<Rightarrow> ('o, 'k) process res" where
  "mmtk_flush_mutator k m p = bindR (with_mutator m p) (\<lambda>_. Ok (snd (call_core k (Flush_mutator m) p)))"

definition mmtk_alloc ::
    "('o, 'k) core_api \<Rightarrow> u64 \<Rightarrow> u64 \<Rightarrow> u64 \<Rightarrow> u64 \<Rightarrow> semantics \<Rightarrow> ('o, 'k) process \<Rightarrow> (u64 \<times> ('o, 'k) process) res" where
  "mmtk_alloc k m bytes align offset sem p =
     bindR (with_mutator m p) (\<lambda>_. Ok (call_core k (Alloc m bytes align offset sem) p))"

definition get_max_non_los_default_alloc_bytes ::
    "'a build_scheme \<Rightarrow> ('o, 'k) core_api \<Rightarrow> ('o, 'k) process \<Rightarrow> (u64 \<times> ('o, 'k) process) res" where
  "get_max_non_los_default_alloc_bytes c k p =
     bindR (force_singleton c k p) (\<lambda>p. Ok (max_non_los_default_alloc_bytes k (core p), p))"

definition mmtk_post_alloc ::
    "'a build_scheme \<Rightarrow> ('o, 'k) core_api \<Rightarrow> u64 \<Rightarrow> u64 \<Rightarrow> u64 \<Rightarrow> semantics \<Rightarrow> ('o, 'k) process \<Rightarrow> ('o, 'k) process res" where
  "mmtk_post_alloc c k m refer bytes sem p =
     bindR (force_singleton c k p) (\<lambda>p.
     let sem = (if max_non_los_default_alloc_bytes k (core p) \<le> bytes then Los else sem) in
     bindR (with_mutator m p) (\<lambda>_. Ok (snd (call_core k (Post_alloc m refer bytes sem) p))))"

definition mmtk_will_never_move :: "('o, 'k) core_api \<Rightarrow> u64 \<Rightarrow> ('o, 'k) process \<Rightarrow> bool \<times> ('o, 'k) process" where
  "mmtk_will_never_move k obj p = (case call_core k (Is_movable obj) p of (r, p) \<Rightarrow> (r = 0, p))"

definition mmtk_start_control_collector where
  "mmtk_start_control_collector c k tls controller = call_singleton c k (Start_control_collector tls controller)"

definition mmtk_start_worker where
  "mmtk_start_worker c k tls w = call_singleton c k (Start_worker tls w)"

definition mmtk_initialize_collection where
  "mmtk_initialize_collection c k tls = call_singleton c k (Initialize_collection tls)"

definition mmtk_disable_collection where
  "mmtk_disable_collection c k = call_singleton c k Disable_collection"

definition mmtk_enable_collection where
  "mmtk_enable_collection c k = call_singleton c k Enable_collection"

definition mmtk_used_bytes where
  "mmtk_used_bytes c k = call_singleton c k Used_bytes"

definition mmtk_free_bytes where
  "mmtk_free_bytes c k = call_singleton c k Free_bytes"

definition mmtk_total_bytes where
  "mmtk_total_bytes c k = call_singleton c k Total_bytes"

definition mmtk_is_live_object where
  "mmtk_is_live_object k obj = call_core k (Is_live_object obj)"

definition mmtk_is_reachable where
  "mmtk_is_reachable k obj = call_core k (Is_reachable obj)"

definition mmtk_is_mmtk_object where
  "mmtk_is_mmtk_object k addr = call_core k (Is_mmtk_object addr)"

definition mmtk_is_aligned_to where
  "mmtk_is_aligned_to k addr align = call_core k (Is_aligned_to addr align)"

definition mmtk_starting_heap_address where
  "mmtk_starting_heap_address k = call_core k Starting_heap_address"

definition mmtk_last_heap_address where
  "mmtk_last_heap_address k = call_core k Last_heap_address"

definition mmtk_is_in_mmtk_spaces where
  "mmtk_is_in_mmtk_spaces k obj = call_core k (Is_in_mmtk_spaces obj)"

definition mmtk_is_mapped_address where
  "mmtk_is_mapped_address k addr = call_core k (Is_mapped_address addr)"

definition mmtk_handle_user_collection_request where
  "mmtk_handle_user_collection_request c k tls = call_singleton c k (Handle_user_collection_request tls)"

definition mmtk_add_weak_candidate where
  "mmtk_add_weak_candidate c k reff = call_singleton c k (Add_weak_candidate reff)"

definition mmtk_add_soft_candidate where
  "mmtk_add_soft_candidate c k reff = call_singleton c k (Add_soft_candidate reff)"

definition mmtk_add_phantom_candidate where
  "mmtk_add_phantom_candidate c k reff = call_singleton c k (Add_phantom_candidate reff)"

definition mmtk_harness_begin where
  "mmtk_harness_begin c k tls = call_singleton c k (Harness_begin tls)"

definition mmtk_harness_end where
  "mmtk_harness_end c k = call_singleton c k Harness_end"

definition mmtk_malloc where "mmtk_malloc k bytes = call_core k (Malloc bytes)"

definition mmtk_calloc where "mmtk_calloc k num bytes = call_core k (Calloc num bytes)"

definition mmtk_realloc where "mmtk_realloc k addr bytes = call_core k (Realloc addr bytes)"

definition mmtk_free where "mmtk_free k addr = call_core k (Free addr)"

definition mmtk_counted_malloc where
  "mmtk_counted_malloc c k bytes = call_singleton c k (Counted_malloc bytes)"

definition mmtk_counted_calloc where
  "mmtk_counted_calloc c k num bytes = call_singleton c k (Counted_calloc num bytes)"

definition mmtk_realloc_with_old_size where
  "mmtk_realloc_with_old_size c k addr bytes old_bytes = call_singleton c k (Realloc_with_old_size addr bytes old_bytes)"

definition mmtk_free_with_size where
  "mmtk_free_with_size c k addr old_bytes = call_singleton c k (Free_with_size addr old_bytes)"


section \<open>Options as C strings\<close>

text \<open>\<open>CStr::from_ptr\<close>: the bytes up to the first null byte.\<close>

function cstr_bytes :: "mem \<Rightarrow> u64 \<Rightarrow> nat \<Rightarrow> u8 list res" where
  "cstr_bytes m p i =
     (if 2 ^ 64 \<le> i then Err Segv
      else (case m (p + of_nat i) of
              None \<Rightarrow> Err Segv
            | Some b \<Rightarrow> if b = 0 then Ok [] else bindR (cstr_bytes m p (i + 1)) (\<lambda>bs. Ok (b # bs))))"
  by pat_completeness auto
termination
  by (relation "measure (\<lambda>(m, p, i). 2 ^ 64 - i)") auto

declare cstr_bytes.simps [simp del]

definition cont_byte :: "u8 \<Rightarrow> bool" where
  "cont_byte b \<longleftrightarrow> 0x80 \<le> b \<and> b \<le> 0xBF"

text \<open>The well-formed byte sequences of UTF-8, as \<open>to_str\<close> accepts them.\<close>

fun valid_utf8 :: "u8 list \<Rightarrow> bool" where
  "valid_utf8 [] \<longleftrightarrow> True"
| "valid_utf8 (b # bs) \<longleftrightarrow>
     (if b \<le> 0x7F then valid_utf8 bs
      else (case bs of
        [] \<Rightarrow> False
      | b1 # bs1 \<Rightarrow>
          if 0xC2 \<le> b \<and> b \<le> 0xDF then cont_byte b1 \<and> valid_utf8 bs1
          else (case bs1 of
            [] \<Rightarrow> False
          | b2 # bs2 \<Rightarrow>
              if 0xE0 \<le> b \<and> b \<le> 0xEF
              then (if b = 0xE0 then 0xA0 else 0x80) \<le> b1 \<and> b1 \<le> (if b = 0xED then 0x9F else 0xBF) \<and>
                   cont_byte b2 \<and> valid_utf8 bs2
              else (case bs2 of
                [] \<Rightarrow> False
              | b3 # bs3 \<Rightarrow>
                  0xF0 \<le> b \<and> b \<le> 0xF4 \<and>
                  (if b = 0xF0 then 0x90 else 0x80) \<le> b1 \<and> b1 \<le> (if b = 0xF4 then 0x8F else 0xBF) \<and>
                  cont_byte b2 \<and> cont_byte b3 \<and> valid_utf8 bs3))))"

definition to_str :: "u8 list \<Rightarrow> u8 list res" where
  "to_str bs = (if valid_utf8 bs then Ok bs else Err Unwrap_failed)"

definition mmtk_process ::
    "('o, 'k) core_api \<Rightarrow> mem \<Rightarrow> u64 \<Rightarrow> u64 \<Rightarrow> ('o, 'k) process \<Rightarrow> (bool \<times> ('o, 'k) process) res" where
  "mmtk_process k m name value p =
     bindR (cstr_bytes m name 0) (\<lambda>name_bytes.
     bindR (cstr_bytes m value 0) (\<lambda>value_bytes.
     bindR (to_str name_bytes) (\<lambda>name_str.
     bindR (to_str value_bytes) (\<lambda>value_str.
     case process_option k name_str value_str (builder p) of (r, options) \<Rightarrow>
     Ok (r, p\<lparr>builder := options\<rparr>)))))"


section \<open>Edges and constants\<close>

text \<open>The C entry point \<open>visit_edge\<close>: the address that is tested is the edge's own.\<close>

definition api_visit_edge :: "'t mmtk \<Rightarrow> u64 \<Rightarrow> 't vm \<Rightarrow> 't vm" where
  "api_visit_edge mm edge vm = (if is_object mm vm edge then visit mm edge vm else vm)"

datatype allocator_info = BumpPointer u64 | Other_allocator

definition get_immix_bump_ptr_offset :: "allocator_info \<Rightarrow> u64 res" where
  "get_immix_bump_ptr_offset info = (case info of BumpPointer off \<Rightarrow> Ok off | Other_allocator \<Rightarrow> Err Panicked)"

definition trailing_zeros :: "u64 \<Rightarrow> nat" where
  "trailing_zeros w = length (takeWhile (\<lambda>i. \<not> bit w i) [0..<64])"

text \<open>
  The constants of mmtk-core that the C side reads, as exported statics (\<open>lib.rs\<close> 82-101) or
  through functions. Their values are mmtk-core's.
\<close>

record core_constants =
  bytes_in_page :: u64
  global_side_metadata_base :: u64
  global_side_metadata_vm_base :: u64
  vo_bit_side_metadata_addr :: u64
  vo_bit_region_size :: u64
  header_reserved_in_bytes :: u64
  size_of_free_list_allocator :: u64

definition GLOBAL_SIDE_METADATA_BASE_ADDRESS :: "core_constants \<Rightarrow> u64" where
  "GLOBAL_SIDE_METADATA_BASE_ADDRESS k = global_side_metadata_base k"

definition GLOBAL_SIDE_METADATA_VM_BASE_ADDRESS :: "core_constants \<Rightarrow> u64" where
  "GLOBAL_SIDE_METADATA_VM_BASE_ADDRESS k = global_side_metadata_vm_base k"

definition VO_BIT_ADDRESS :: "core_constants \<Rightarrow> u64" where
  "VO_BIT_ADDRESS k = vo_bit_side_metadata_addr k"

definition MMTK_MARK_COMPACT_HEADER_RESERVED_IN_BYTES :: "core_constants \<Rightarrow> u64" where
  "MMTK_MARK_COMPACT_HEADER_RESERVED_IN_BYTES k = header_reserved_in_bytes k"

definition FREE_LIST_ALLOCATOR_SIZE :: "core_constants \<Rightarrow> u64" where
  "FREE_LIST_ALLOCATOR_SIZE k = size_of_free_list_allocator k"

definition mmtk_get_bytes_in_page :: "core_constants \<Rightarrow> u64" where
  "mmtk_get_bytes_in_page k = bytes_in_page k"

definition get_vo_bit_base :: "core_constants \<Rightarrow> u64" where
  "get_vo_bit_base k = vo_bit_side_metadata_addr k"

definition get_vo_bit_log_region_size :: "core_constants \<Rightarrow> nat" where
  "get_vo_bit_log_region_size k = trailing_zeros (vo_bit_region_size k)"

text \<open>
  The C side divides an address by the region size with a shift: right when the size is a
  power of two. The static and the function give the same base of the bit table.
\<close>

lemma trailing_zeros_exp: "n < 64 \<Longrightarrow> trailing_zeros (2 ^ n) = n"
proof -
  assume n: "n < 64"
  have split: "[0..<64] = [0..<n] @ n # [Suc n..<64]"
    using n by (metis le0 less_imp_le_nat upt_add_eq_append upt_conv_Cons le_add_diff_inverse)
  have "takeWhile (\<lambda>i. \<not> bit (2 ^ n :: u64) i) [0..<64] = [0..<n]"
    unfolding split using n by (subst takeWhile_append2) (auto simp: bit_exp_iff)
  then show ?thesis by (simp add: trailing_zeros_def)
qed

lemma vo_bit_index:
  assumes "vo_bit_region_size k = 2 ^ n" "n < 64"
  shows "drop_bit (get_vo_bit_log_region_size k) (a :: u64) = a div vo_bit_region_size k"
    and "get_vo_bit_base k = VO_BIT_ADDRESS k"
  using assms by (simp_all add: get_vo_bit_log_region_size_def trailing_zeros_exp drop_bit_eq_div
      get_vo_bit_base_def VO_BIT_ADDRESS_def)


section \<open>Initialisation\<close>

text \<open>
  The first \<open>mmtk_init\<close> builds mmtk-core with the Immix plan and the heap policy of its
  arguments: a fixed heap exactly when the two sizes are equal. It marks the process as
  initialised, and from then on nothing that uses \<open>SINGLETON\<close> builds it again.
\<close>

lemma mmtk_init_builds_singleton:
  assumes "\<not> singleton_built p" "\<not> mmtk_initialized p"
    and "set_gc_trigger k (if lo = hi then FixedHeapSize lo else DynamicHeapSize lo hi)
           (set_plan_immix k (builder p)) = (True, options)"
  shows "\<exists>p'. mmtk_init c k lo hi p = Ok p' \<and> core p' = core_init k options (core p) \<and>
    singleton_built p' \<and> mmtk_initialized p' \<and> force_singleton c k p' = Ok p'"
  using assms by (simp add: mmtk_init_def Let_def force_singleton_def)

text \<open>A core that remembers the options it was built with; options are the heap policy, if set.\<close>

definition sample_api :: "(gc_trigger option, gc_trigger option) core_api" where
  "sample_api =
     \<lparr>default_options = None, set_plan_immix = (\<lambda>o'. o'),
      set_gc_trigger = (\<lambda>g o'. (case g of FixedHeapSize n \<Rightarrow> 0 < n | DynamicHeapSize a b \<Rightarrow> a \<le> b, Some g)),
      process_option = (\<lambda>n v o'. (False, o')), core_init = (\<lambda>o' s. o'),
      core_call = (\<lambda>call s. (0, s)), max_non_los_default_alloc_bytes = (\<lambda>s. 0x4000)\<rparr>"

text \<open>
  Initialising too late has no effect: once anything has used \<open>SINGLETON\<close> (any call that
  takes it, \<open>mmtk_init_binding\<close> included), \<open>mmtk_init\<close> changes options that are never read
  again. A debug build panics; a release build reports nothing and keeps mmtk-core as it
  was built.
\<close>

lemma late_init_has_no_effect:
  assumes "singleton_built p" "mmtk_initialized p"
  shows "if dbg c then mmtk_init c k lo hi p = Err Assert_failed
    else \<exists>p2. mmtk_init c k lo hi p = Ok p2 \<and> core p2 = core p \<and> singleton_built p2"
proof -
  obtain ok options where "set_gc_trigger k (if lo = hi then FixedHeapSize lo else DynamicHeapSize lo hi)
      (set_plan_immix k (builder p)) = (ok, options)" by fastforce
  then show ?thesis
    using assms by (cases ok) (simp_all add: mmtk_init_def Let_def force_singleton_def)
qed

text \<open>
  C33. The C entry point \<open>visit_edge\<close> tests whether the address of the slot is an object,
  not what the slot holds. Fed with the edges of an object whose slots are not
  themselves objects, it hands none of them to the visitor, where \<open>scan_object\<close>
  visits all of them.
\<close>

theorem api_visit_edge_drops_edges:
  assumes "visitor_ok mm" "plain_view c (memory vm) obj weak p fa offs"
    and "slots_ok c mm (memory vm) (core_state vm) (ref_slots c weak fa offs)"
    and "edges = map fst (live_edges mm (memory vm) (core_state vm) (ref_slots c weak fa offs))"
    and "\<forall>e\<in>set edges. \<not> is_mmtk_object mm (core_state vm) e"
  shows "fold (api_visit_edge mm) edges vm = vm \<and>
    (\<exists>vm'. scan_object c mm obj vm = Ok vm' \<and> core_state vm' = fold (visit_edge mm) edges (core_state vm))"
proof -
  have "fold (api_visit_edge mm) es vm = vm" if "\<forall>e\<in>set es. \<not> is_mmtk_object mm (core_state vm) e" for es
    using that by (induction es) (simp_all add: api_visit_edge_def is_object_def)
  then show ?thesis
    using scan_plain_visits [OF assms(1-3)] assms(4,5) by (simp add: visit_all_def)
qed

theorem api_visit_edge_drops_edges_witness:
  "fold (api_visit_edge sample_mmtk) [0x10058] graph_vm = graph_vm \<and>
    (\<exists>vm'. scan_object sample_cfg sample_mmtk 0x10040 graph_vm = Ok vm' \<and> edge_log (core_state vm') = [0x10058])"
proof -
  have slots: "ref_slots sample_cfg True 0x10050 [0, 1] = [0x10058]"
    by (simp add: ref_slots_def)
  have "fold (api_visit_edge sample_mmtk) [0x10058] graph_vm = graph_vm \<and>
    (\<exists>vm'. scan_object sample_cfg sample_mmtk 0x10040 graph_vm = Ok vm' \<and>
      core_state vm' = fold (visit_edge sample_mmtk) [0x10058] (core_state graph_vm))"
    by (rule api_visit_edge_drops_edges [where weak = True and p = "0x2000" and fa = "0x10050" and offs = "[0, 1]"])
       (use graph_plain_view graph_headers(1) in \<open>auto simp: slots slots_ok_def graph_loads sample_live\<close>,
        simp_all add: sample_mmtk_def sample_core_def)
  then show ?thesis by (auto simp: sample_mmtk_def sample_core_def)
qed

end
