(* ===== verification/Options.thy ===== *)
theory Options
  imports Api
begin

text \<open>
  Options as C strings (\<open>mmtk_process\<close> in \<open>api.rs\<close>): what the reader of a C string returns,
  which strings pass the check of \<open>to_str\<close>, and what happens to the builder.
\<close>

section \<open>UTF-8\<close>

text \<open>The encoding of a code point, and the code points that have one.\<close>

definition utf8_char :: "nat \<Rightarrow> u8 list" where
  "utf8_char u =
     (if u < 0x80 then [of_nat u]
      else if u < 0x800 then [of_nat (0xC0 + u div 64), of_nat (0x80 + u mod 64)]
      else if u < 0x10000 then [of_nat (0xE0 + u div 4096), of_nat (0x80 + u div 64 mod 64), of_nat (0x80 + u mod 64)]
      else [of_nat (0xF0 + u div 262144), of_nat (0x80 + u div 4096 mod 64), of_nat (0x80 + u div 64 mod 64),
            of_nat (0x80 + u mod 64)])"

definition scalar_value :: "nat \<Rightarrow> bool" where
  "scalar_value u \<longleftrightarrow> u < 0x110000 \<and> \<not> (0xD800 \<le> u \<and> u < 0xE000)"

lemma unat_u8: "n < 256 \<Longrightarrow> unat (of_nat n :: u8) = n"
  by (simp add: unsigned_of_nat take_bit_nat_eq_self)

lemma cont_byte_unat: "cont_byte b \<longleftrightarrow> 0x80 \<le> unat b \<and> unat b \<le> 0xBF"
  by (simp add: cont_byte_def word_le_nat_alt)

lemma valid_utf8_unat:
  "unat b \<le> 0x7F \<Longrightarrow> valid_utf8 (b # bs) = valid_utf8 bs"
  "0xC2 \<le> unat b \<Longrightarrow> unat b \<le> 0xDF \<Longrightarrow> cont_byte b1 \<Longrightarrow> valid_utf8 (b # b1 # bs) = valid_utf8 bs"
  "0xE0 \<le> unat b \<Longrightarrow> unat b \<le> 0xEF \<Longrightarrow> cont_byte b1 \<Longrightarrow> cont_byte b2 \<Longrightarrow>
    (unat b = 0xE0 \<Longrightarrow> 0xA0 \<le> unat b1) \<Longrightarrow> (unat b = 0xED \<Longrightarrow> unat b1 \<le> 0x9F) \<Longrightarrow>
    valid_utf8 (b # b1 # b2 # bs) = valid_utf8 bs"
  "0xF0 \<le> unat b \<Longrightarrow> unat b \<le> 0xF4 \<Longrightarrow> cont_byte b1 \<Longrightarrow> cont_byte b2 \<Longrightarrow> cont_byte b3 \<Longrightarrow>
    (unat b = 0xF0 \<Longrightarrow> 0x90 \<le> unat b1) \<Longrightarrow> (unat b = 0xF4 \<Longrightarrow> unat b1 \<le> 0x8F) \<Longrightarrow>
    valid_utf8 (b # b1 # b2 # b3 # bs) = valid_utf8 bs"
  by (auto simp: word_le_nat_alt word_unat_eq_iff cont_byte_unat)

lemma valid_utf8_char:
  assumes "scalar_value u"
  shows "valid_utf8 (utf8_char u @ bs) = valid_utf8 bs"
proof -
  have u: "u < 0x110000" using assms by (simp add: scalar_value_def)
  consider "u < 0x80" | "0x80 \<le> u" "u < 0x800" | "0x800 \<le> u" "u < 0x10000" | "0x10000 \<le> u" by linarith
  then show ?thesis
  proof cases
    case 1
    then show ?thesis by (simp add: utf8_char_def valid_utf8_unat(1) unat_u8 del: valid_utf8.simps)
  next
    case 2
    then have "2 \<le> u div 64" "u div 64 < 32" by auto
    then show ?thesis
      using 2 by (simp add: utf8_char_def valid_utf8_unat(2) unat_u8 cont_byte_unat del: of_nat_add valid_utf8.simps)
  next
    case 3
    have m: "u mod 4096 = 64 * (u div 64 mod 64) + u mod 64"
      using mod_mult2_eq [of u 64 64] by simp
    have d: "u = 4096 * (u div 4096) + u mod 4096" by simp
    have "u div 4096 < 16" using 3 by auto
    moreover have "32 \<le> u div 64 mod 64" if "u div 4096 = 0" using that 3 by auto
    moreover have "u div 64 mod 64 \<le> 31" if q: "u div 4096 = 13"
    proof -
      have "u < 0xE000" using d mod_less_divisor [of 4096 u] unfolding q by linarith
      then have "u < 0xD800" using assms by (simp add: scalar_value_def)
      then show ?thesis using d m unfolding q by linarith
    qed
    moreover have "u div 64 mod 64 \<le> 63" "u mod 64 \<le> 63"
      using mod_less_divisor [of 64 u] mod_less_divisor [of 64 "u div 64"] by linarith+
    ultimately show ?thesis
      using 3 valid_utf8_unat(3) [of "of_nat (0xE0 + u div 4096)" "of_nat (0x80 + u div 64 mod 64)" "of_nat (0x80 + u mod 64)" bs]
      by (simp add: utf8_char_def unat_u8 cont_byte_unat del: of_nat_add valid_utf8.simps)
  next
    case 4
    have m: "u mod 262144 = 4096 * (u div 4096 mod 64) + u mod 4096"
      using mod_mult2_eq [of u 4096 64] by simp
    have d: "u = 262144 * (u div 262144) + u mod 262144" by simp
    have "u div 262144 < 5" using u by auto
    moreover have "16 \<le> u div 4096 mod 64" if q: "u div 262144 = 0"
      using d m 4 mod_less_divisor [of 4096 u] unfolding q by linarith
    moreover have "u div 4096 mod 64 \<le> 15" if q: "u div 262144 = 4"
      using d m u unfolding q by linarith
    moreover have "u div 4096 mod 64 \<le> 63" "u div 64 mod 64 \<le> 63" "u mod 64 \<le> 63"
      using mod_less_divisor [of 64 u] mod_less_divisor [of 64 "u div 64"] mod_less_divisor [of 64 "u div 4096"]
      by linarith+
    ultimately show ?thesis
      using 4 valid_utf8_unat(4) [of "of_nat (0xF0 + u div 262144)" "of_nat (0x80 + u div 4096 mod 64)"
          "of_nat (0x80 + u div 64 mod 64)" "of_nat (0x80 + u mod 64)" bs]
      by (simp add: utf8_char_def unat_u8 cont_byte_unat del: of_nat_add valid_utf8.simps)
  qed
qed

definition utf8 :: "nat list \<Rightarrow> u8 list" where
  "utf8 us = concat (map utf8_char us)"

lemma valid_utf8_encoded: "list_all scalar_value us \<Longrightarrow> valid_utf8 (utf8 us)"
  by (induction us) (simp_all add: utf8_def valid_utf8_char)


text \<open>Conversely every byte sequence that is accepted is the encoding of a text.\<close>

lemma base64_digits:
  assumes "r < (64 :: nat)"
  shows "(q * 64 + r) div 64 = q" "(q * 64 + r) mod 64 = r"
  using assms by simp_all

lemma div_base64: "u div 4096 = u div 64 div 64" "u div 262144 = u div 64 div 64 div 64" for u :: nat
  by (simp_all flip: div_mult2_eq)

lemma cont_byte_digit:
  assumes "cont_byte b"
  obtains y where "y < 64" "unat b = 0x80 + y"
  using assms by (intro that [of "unat b - 0x80"]) (auto simp: cont_byte_unat)

lemma word_unat: "unat b = n \<Longrightarrow> b = of_nat n"
  by auto

definition a_char :: "u8 list \<Rightarrow> bool" where
  "a_char cs \<longleftrightarrow> (\<exists>u. scalar_value u \<and> utf8_char u = cs)"

lemma a_char1:
  assumes "b \<le> 0x7F"
  shows "a_char [b]"
  unfolding a_char_def using assms by (intro exI [of _ "unat b"]) (simp add: scalar_value_def utf8_char_def word_le_nat_alt)

lemma a_char2:
  assumes b: "0xC2 \<le> b" "b \<le> 0xDF" "cont_byte b1"
  shows "a_char [b, b1]"
proof -
  obtain y where y: "y < 64" "unat b1 = 0x80 + y" using cont_byte_digit [OF b(3)] .
  obtain x where x: "unat b = 0xC0 + x" "2 \<le> x" "x < 32"
    using b(1,2) by (intro that [of "unat b - 0xC0"]) (auto simp: word_le_nat_alt)
  have u: "(x * 64 + y) div 64 = x" "(x * 64 + y) mod 64 = y" using y(1) by simp_all
  have "0x80 \<le> x * 64 + y" "x * 64 + y < 0x800" using x y by linarith+
  then show ?thesis
    unfolding a_char_def using u word_unat [OF x(1)] word_unat [OF y(2)]
    by (intro exI [of _ "x * 64 + y"]) (simp add: scalar_value_def utf8_char_def)
qed

lemma a_char3:
  assumes b: "0xE0 \<le> b" "b \<le> 0xEF" "cont_byte b1" "cont_byte b2" "b = 0xE0 \<Longrightarrow> 0xA0 \<le> b1" "b = 0xED \<Longrightarrow> b1 \<le> 0x9F"
  shows "a_char [b, b1, b2]"
proof -
  obtain y where y: "y < 64" "unat b1 = 0x80 + y" using cont_byte_digit [OF b(3)] .
  obtain z where z: "z < 64" "unat b2 = 0x80 + z" using cont_byte_digit [OF b(4)] .
  obtain x where x: "unat b = 0xE0 + x" "x < 16"
    using b(1,2) by (intro that [of "unat b - 0xE0"]) (auto simp: word_le_nat_alt)
  have lead: "32 \<le> y" if "x = 0" using b(5) x(1) y(2) that by (auto simp: word_le_nat_alt word_unat_eq_iff)
  have surrogate: "y < 32" if "x = 13" using b(6) x(1) y(2) that by (auto simp: word_le_nat_alt word_unat_eq_iff)
  let ?u = "(x * 64 + y) * 64 + z"
  have u: "?u div 64 = x * 64 + y" "?u mod 64 = z" by (simp_all only: base64_digits [OF z(1)])
  have u: "?u mod 64 = z" "?u div 64 mod 64 = y" "?u div 4096 = x"
    unfolding u div_base64 by (simp_all only: u base64_digits [OF y(1)])
  have "0x800 \<le> ?u" using lead y z by (cases "x = 0") auto
  moreover have "?u < 0x10000" using x(2) y(1) z(1) by simp
  moreover have "\<not> (0xD800 \<le> ?u \<and> ?u < 0xE000)"
  proof
    assume "0xD800 \<le> ?u \<and> ?u < 0xE000"
    then have "x = 13" using y(1) z(1) by simp
    with surrogate have "y < 32" by blast
    with \<open>x = 13\<close> \<open>0xD800 \<le> ?u \<and> ?u < 0xE000\<close> z(1) show False by simp
  qed
  ultimately show ?thesis
    unfolding a_char_def using u word_unat [OF x(1)] word_unat [OF y(2)] word_unat [OF z(2)]
    by (intro exI [of _ ?u]) (simp add: scalar_value_def utf8_char_def)
qed

lemma a_char4:
  assumes b: "0xF0 \<le> b" "b \<le> 0xF4" "cont_byte b1" "cont_byte b2" "cont_byte b3" "b = 0xF0 \<Longrightarrow> 0x90 \<le> b1" "b = 0xF4 \<Longrightarrow> b1 \<le> 0x8F"
  shows "a_char [b, b1, b2, b3]"
proof -
  obtain y where y: "y < 64" "unat b1 = 0x80 + y" using cont_byte_digit [OF b(3)] .
  obtain z where z: "z < 64" "unat b2 = 0x80 + z" using cont_byte_digit [OF b(4)] .
  obtain v where v: "v < 64" "unat b3 = 0x80 + v" using cont_byte_digit [OF b(5)] .
  obtain x where x: "unat b = 0xF0 + x" "x < 5"
    using b(1,2) by (intro that [of "unat b - 0xF0"]) (auto simp: word_le_nat_alt)
  have lead: "16 \<le> y" if "x = 0" using b(6) x(1) y(2) that by (auto simp: word_le_nat_alt word_unat_eq_iff)
  have last: "y < 16" if "x = 4" using b(7) x(1) y(2) that by (auto simp: word_le_nat_alt word_unat_eq_iff)
  let ?u = "((x * 64 + y) * 64 + z) * 64 + v"
  have u: "?u div 64 = (x * 64 + y) * 64 + z" "?u mod 64 = v" by (simp_all only: base64_digits [OF v(1)])
  have u: "?u mod 64 = v" "?u div 64 mod 64 = z" "?u div 4096 mod 64 = y" "?u div 262144 = x"
    unfolding u div_base64 by (simp_all only: u base64_digits [OF z(1)] base64_digits [OF y(1)])
  have "0x10000 \<le> ?u" using lead by (cases "x = 0") simp_all
  moreover have "?u < 0x110000" using last x(2) y(1) z(1) v(1) by (cases "x = 4") simp_all
  ultimately show ?thesis
    unfolding a_char_def using u word_unat [OF x(1)] word_unat [OF y(2)] word_unat [OF z(2)] word_unat [OF v(2)]
    by (intro exI [of _ ?u]) (simp add: scalar_value_def utf8_char_def)
qed

text \<open>An accepted sequence starts with a character, which an accepted sequence follows.\<close>

lemma valid_utf8_first:
  assumes "valid_utf8 bs" "bs \<noteq> []"
  shows "\<exists>cs rest. bs = cs @ rest \<and> cs \<noteq> [] \<and> a_char cs \<and> valid_utf8 rest"
proof -
  have found: ?thesis if "bs = cs @ rest" "cs \<noteq> []" "a_char cs" "valid_utf8 rest" for cs rest using that by blast
  obtain b bs1 where bs1: "bs = b # bs1" using assms(2) by (cases bs) auto
  show ?thesis
  proof (cases "b \<le> 0x7F")
    case True
    then show ?thesis using found [of "[b]" bs1] a_char1 assms(1) by (simp add: bs1)
  next
    case one: False
    with assms(1) obtain b1 bs2 where bs2: "bs1 = b1 # bs2" by (auto simp: bs1 split: list.splits)
    show ?thesis
    proof (cases "0xC2 \<le> b \<and> b \<le> 0xDF")
      case True
      then show ?thesis using found [of "[b, b1]" bs2] a_char2 assms(1) one by (simp add: bs1 bs2)
    next
      case two: False
      with assms(1) one obtain b2 bs3 where bs3: "bs2 = b2 # bs3" by (auto simp: bs1 bs2 split: list.splits)
      show ?thesis
      proof (cases "0xE0 \<le> b \<and> b \<le> 0xEF")
        case True
        then have c: "(if b = 0xE0 then 0xA0 else 0x80) \<le> b1" "b1 \<le> (if b = 0xED then 0x9F else 0xBF)" "cont_byte b2" "valid_utf8 bs3"
          using assms(1) one two by (auto simp: bs1 bs2 bs3)
        then have "cont_byte b1" "b = 0xE0 \<Longrightarrow> 0xA0 \<le> b1" "b = 0xED \<Longrightarrow> b1 \<le> 0x9F"
          by (auto simp: cont_byte_unat word_le_nat_alt split: if_splits)
        then show ?thesis using found [of "[b, b1, b2]" bs3] a_char3 True c by (simp add: bs1 bs2 bs3)
      next
        case three: False
        with assms(1) one two obtain b3 bs4 where bs4: "bs3 = b3 # bs4" by (auto simp: bs1 bs2 bs3 split: list.splits)
        have c: "0xF0 \<le> b" "b \<le> 0xF4" "(if b = 0xF0 then 0x90 else 0x80) \<le> b1" "b1 \<le> (if b = 0xF4 then 0x8F else 0xBF)"
          "cont_byte b2" "cont_byte b3" "valid_utf8 bs4"
          using assms(1) one two three by (auto simp: bs1 bs2 bs3 bs4)
        then have "cont_byte b1" "b = 0xF0 \<Longrightarrow> 0x90 \<le> b1" "b = 0xF4 \<Longrightarrow> b1 \<le> 0x8F"
          by (auto simp: cont_byte_unat word_le_nat_alt split: if_splits)
        then show ?thesis using found [of "[b, b1, b2, b3]" bs4] a_char4 c by (simp add: bs1 bs2 bs3 bs4)
      qed
    qed
  qed
qed

definition is_text :: "u8 list \<Rightarrow> bool" where
  "is_text bs \<longleftrightarrow> (\<exists>us. list_all scalar_value us \<and> bs = utf8 us)"

lemma is_text_char: "scalar_value u \<Longrightarrow> is_text bs \<Longrightarrow> is_text (utf8_char u @ bs)"
proof -
  assume u: "scalar_value u" and "is_text bs"
  then obtain us where "list_all scalar_value us" "bs = utf8 us" by (auto simp: is_text_def)
  with u show ?thesis unfolding is_text_def by (intro exI [of _ "u # us"]) (simp add: utf8_def)
qed

lemma valid_utf8_text: "valid_utf8 bs = is_text bs"
proof
  show "is_text bs \<Longrightarrow> valid_utf8 bs" using valid_utf8_encoded by (auto simp: is_text_def)
next
  show "valid_utf8 bs \<Longrightarrow> is_text bs"
  proof (induction "length bs" arbitrary: bs rule: less_induct)
    case less
    show ?case
    proof (cases "bs = []")
      case True
      then show ?thesis unfolding is_text_def by (intro exI [of _ "[]"]) (simp add: utf8_def)
    next
      case False
      obtain cs rest where cs: "bs = cs @ rest" "cs \<noteq> []" "a_char cs" "valid_utf8 rest"
        using valid_utf8_first [OF less.prems False] by blast
      then have "is_text rest" by (intro less.hyps) simp_all
      with cs is_text_char show ?thesis by (auto simp: a_char_def)
    qed
  qed
qed


section \<open>C strings\<close>

definition c_string :: "mem \<Rightarrow> u64 \<Rightarrow> u8 list \<Rightarrow> bool" where
  "c_string m p bs \<longleftrightarrow> length bs < 2 ^ 64 \<and> 0 \<notin> set bs \<and>
     (\<forall>i<length bs. m (p + of_nat i) = Some (bs ! i)) \<and> m (p + of_nat (length bs)) = Some 0"

lemma cstr_bytes_from:
  assumes "c_string m p bs" "i \<le> length bs"
  shows "cstr_bytes m p i = Ok (drop i bs)"
  using assms(2)
proof (induction "length bs - i" arbitrary: i)
  case 0
  then show ?case
    using assms(1) by (subst cstr_bytes.simps) (simp add: c_string_def)
next
  case (Suc k)
  then have i: "i < length bs" by simp
  have "cstr_bytes m p (Suc i) = Ok (drop (Suc i) bs)" using Suc i by (intro Suc.hyps(1)) auto
  moreover have "bs ! i \<noteq> 0" "m (p + of_nat i) = Some (bs ! i)" "i < 2 ^ 64"
    using assms(1) i by (auto simp: c_string_def dest: nth_mem)
  ultimately show ?case
    using i by (subst cstr_bytes.simps) (simp add: Cons_nth_drop_Suc)
qed

text \<open>
  C35. Setting an option reads both C strings to their terminators. If both are texts in UTF-8 (encodings
  of sequences of Unicode scalar values), they are handed to mmtk-core, whose answer is returned with
  the options it gives; if the name or the value is anything else, the call panics.
\<close>

theorem mmtk_process_sets_option:
  assumes "c_string m name ns" "c_string m val vs" "process_option k ns vs (builder p) = (r, options)"
  shows "mmtk_process k m name val p =
    (if is_text ns \<and> is_text vs then Ok (r, p\<lparr>builder := options\<rparr>) else Err Unwrap_failed)"
  using assms cstr_bytes_from [OF assms(1), of 0] cstr_bytes_from [OF assms(2), of 0]
  by (simp add: mmtk_process_def to_str_def valid_utf8_text)

text \<open>The name is a text (\<open>ng\<close> and a two-byte letter), then a single byte of a longer encoding.\<close>

definition option_mem :: mem where
  "option_mem = word_mem [(0x100, 0x000000A9C3676E), (0x200, 0xFF)]"

lemma option_strings: "c_string option_mem 0x100 [0x6E, 0x67, 0xC3, 0xA9]" "c_string option_mem 0x200 [0xFF]"
proof -
  have "\<forall>i\<in>set [0..<4]. option_mem (0x100 + of_nat i) = Some ([0x6E, 0x67, 0xC3, 0xA9] ! i)"
    by (simp add: upt_rec word_mem_def option_mem_def)
  then show "c_string option_mem 0x100 [0x6E, 0x67, 0xC3, 0xA9]"
    unfolding c_string_def by (auto simp: word_mem_def option_mem_def)
  show "c_string option_mem 0x200 [0xFF]"
    unfolding c_string_def by (simp add: word_mem_def option_mem_def)
qed

lemma option_texts: "is_text [0x6E, 0x67, 0xC3, 0xA9]" "\<not> is_text [0xFF]"
  by (simp_all add: cont_byte_def flip: valid_utf8_text)

theorem mmtk_process_sets_option_witness:
  "mmtk_process sample_api option_mem 0x100 0x100 (start_process sample_api None) = Ok (False, start_process sample_api None) \<and>
   mmtk_process sample_api option_mem 0x100 0x200 (start_process sample_api None) = Err Unwrap_failed \<and>
   mmtk_process sample_api option_mem 0x200 0x100 (start_process sample_api None) = Err Unwrap_failed"
proof -
  have parse: "process_option sample_api ns vs (builder (start_process sample_api None)) = (False, None)" for ns vs
    by (simp add: sample_api_def start_process_def)
  have same: "start_process sample_api None\<lparr>builder := None\<rparr> = start_process sample_api None"
    by (simp add: start_process_def sample_api_def)
  note process = mmtk_process_sets_option [where k = sample_api and p = "start_process sample_api None", OF _ _ parse]
  show ?thesis
    unfolding process [OF option_strings(1) option_strings(1)] process [OF option_strings]
      process [OF option_strings(2) option_strings(1)] same
    by (simp add: option_texts)
qed

end
