(* ===== verification/Api_Runs.thy ===== *)
theory Api_Runs
  imports Api
begin

text \<open>
  The runtime's calls of the C interface, in any order: a step is a call that returns (a
  panic in an \<open>extern "C"\<close> function aborts the process). mmtk-core is built once in every
  run, by whichever call uses \<open>SINGLETON\<close> first.
\<close>

section \<open>Calls\<close>

inductive api_step :: "'a build_scheme \<Rightarrow> ('o, 'k) core_api \<Rightarrow> ('o, 'k) process \<Rightarrow> ('o, 'k) process \<Rightarrow> bool"
  for c k where
  api_init: "mmtk_init c k lo hi p = Ok p' \<Longrightarrow> api_step c k p p'"
| api_init_binding: "mmtk_init_binding c k calls p = Ok p' \<Longrightarrow> api_step c k p p'"
| api_option: "mmtk_process k m name val p = Ok (r, p') \<Longrightarrow> api_step c k p p'"
| api_bind: "mmtk_bind_mutator c k tls p = Ok (h, p') \<Longrightarrow> api_step c k p p'"
| api_destroy: "mmtk_destroy_mutator k h p = Ok p' \<Longrightarrow> api_step c k p p'"
| api_flush: "mmtk_flush_mutator k h p = Ok p' \<Longrightarrow> api_step c k p p'"
| api_alloc: "mmtk_alloc k h bytes align offset sem p = Ok (a, p') \<Longrightarrow> api_step c k p p'"
| api_post_alloc: "mmtk_post_alloc c k h a bytes sem p = Ok p' \<Longrightarrow> api_step c k p p'"
| api_max_bytes: "get_max_non_los_default_alloc_bytes c k p = Ok (n, p') \<Longrightarrow> api_step c k p p'"
| api_singleton: "call_singleton c k call p = Ok (r, p') \<Longrightarrow> api_step c k p p'"
| api_core: "call_core k call p = (r, p') \<Longrightarrow> api_step c k p p'"

inductive_cases api_stepE: "api_step c k p p'"

text \<open>What calls of mmtk-core's own functions can make of its state.\<close>

definition core_moves :: "('o, 'k) core_api \<Rightarrow> 'k \<Rightarrow> 'k \<Rightarrow> bool" where
  "core_moves k s s' \<longleftrightarrow> (\<exists>call. s' = snd (core_call k call s))"

text \<open>The state of mmtk-core in a process: its statics \<open>s0\<close>, then, when it is built, one \<open>core_init\<close>.\<close>

definition core_history :: "('o, 'k) core_api \<Rightarrow> 'k \<Rightarrow> ('o, 'k) process \<Rightarrow> bool" where
  "core_history k s0 p \<longleftrightarrow>
     (if singleton_built p
      then \<exists>options s. (core_moves k)\<^sup>*\<^sup>* s0 s \<and> (core_moves k)\<^sup>*\<^sup>* (core_init k options s) (core p)
      else (core_moves k)\<^sup>*\<^sup>* s0 (core p))"

definition process_ok :: "('o, 'k) core_api \<Rightarrow> 'k \<Rightarrow> ('o, 'k) process \<Rightarrow> bool" where
  "process_ok k s0 p \<longleftrightarrow> singleton_built p = mmtk_initialized p \<and> core_history k s0 p \<and>
     (binding_cell p \<noteq> None \<or> live_mutators p \<noteq> {} \<longrightarrow> singleton_built p)"

text \<open>\<open>advances k p p'\<close>: between the two, mmtk-core was not built again and the binding not replaced.\<close>

definition advances :: "('o, 'k) core_api \<Rightarrow> ('o, 'k) process \<Rightarrow> ('o, 'k) process \<Rightarrow> bool" where
  "advances k p p' \<longleftrightarrow>
     (singleton_built p \<longrightarrow> singleton_built p' \<and> (core_moves k)\<^sup>*\<^sup>* (core p) (core p')) \<and>
     (binding_cell p \<noteq> None \<longrightarrow> binding_cell p' = binding_cell p)"

definition good_step :: "('o, 'k) core_api \<Rightarrow> 'k \<Rightarrow> ('o, 'k) process \<Rightarrow> ('o, 'k) process \<Rightarrow> bool" where
  "good_step k s0 p p' \<longleftrightarrow> process_ok k s0 p' \<and> advances k p p'"

lemma advances_refl: "advances k p p"
  by (simp add: advances_def)

lemma advances_trans: "advances k p p1 \<Longrightarrow> advances k p1 p2 \<Longrightarrow> advances k p p2"
  by (auto simp: advances_def)

lemma good_step_trans: "good_step k s0 p p1 \<Longrightarrow> good_step k s0 p1 p2 \<Longrightarrow> good_step k s0 p p2"
  using advances_trans [of k p p1 p2] by (simp add: good_step_def)

lemma good_chain: "good_step k s0 p p1 \<Longrightarrow> (process_ok k s0 p1 \<Longrightarrow> good_step k s0 p1 p2) \<Longrightarrow> good_step k s0 p p2"
  using good_step_trans [of k s0 p p1 p2] by (simp add: good_step_def)

lemma start_ok: "process_ok k s0 (start_process k s0)"
  by (simp add: process_ok_def core_history_def start_process_def)

lemma force_singleton_good:
  assumes "process_ok k s0 p" "force_singleton c k p = Ok p'"
  shows "good_step k s0 p p' \<and> singleton_built p'"
proof (cases "singleton_built p")
  case True
  then show ?thesis using assms advances_refl by (auto simp: force_singleton_def good_step_def)
next
  case False
  then have p': "p' = p\<lparr>core := core_init k (builder p) (core p), singleton_built := True, mmtk_initialized := True\<rparr>"
    using assms(2) by (auto simp: force_singleton_def)
  have "(core_moves k)\<^sup>*\<^sup>* s0 (core p)"
    using assms(1) False by (auto simp: process_ok_def core_history_def)
  then have "core_history k s0 p'"
    unfolding core_history_def p' by (auto intro!: exI [of _ "builder p"] exI [of _ "core p"])
  then show ?thesis using False p' by (simp add: good_step_def process_ok_def advances_def)
qed

lemma call_core_good:
  assumes "process_ok k s0 p" "call_core k call p = (r, p')"
  shows "good_step k s0 p p'"
proof -
  have p': "p' = p\<lparr>core := core p'\<rparr>" and "core_moves k (core p) (core p')"
    using assms(2) by (auto simp: call_core_def core_moves_def split: prod.splits intro: exI [of _ call])
  then have move: "(core_moves k)\<^sup>*\<^sup>* s (core p) \<Longrightarrow> (core_moves k)\<^sup>*\<^sup>* s (core p')" for s
    by (auto intro: rtranclp.rtrancl_into_rtrancl)
  have same: "singleton_built p' = singleton_built p" "mmtk_initialized p' = mmtk_initialized p"
    "binding_cell p' = binding_cell p" "live_mutators p' = live_mutators p"
    by (subst p', simp)+
  have "core_history k s0 p'"
    using assms(1) move unfolding process_ok_def core_history_def same by (auto split: if_splits)
  then show ?thesis
    using assms(1) move [of "core p"] by (auto simp: good_step_def process_ok_def advances_def same)
qed

text \<open>What the binding keeps beside mmtk-core's state.\<close>

lemma good_step_fields:
  assumes "process_ok k s0 p" "singleton_built p' = singleton_built p" "core p' = core p"
    and "mmtk_initialized p' = mmtk_initialized p" "binding_cell p \<noteq> None \<longrightarrow> binding_cell p' = binding_cell p"
    and "binding_cell p' = binding_cell p \<and> live_mutators p' \<subseteq> live_mutators p \<or> singleton_built p"
  shows "good_step k s0 p p'"
proof -
  have "core_history k s0 p' = core_history k s0 p" using assms(2,3) by (simp add: core_history_def)
  then show ?thesis using assms by (auto simp: good_step_def process_ok_def advances_def)
qed

lemma force_good: "process_ok k s0 p \<Longrightarrow> force_singleton c k p = Ok p' \<Longrightarrow> good_step k s0 p p'"
  by (rule conjunct1 [OF force_singleton_good])

lemma call_singleton_good:
  assumes "process_ok k s0 p" "call_singleton c k call p = Ok (r, p')"
  shows "good_step k s0 p p'"
proof -
  obtain p1 where p1: "force_singleton c k p = Ok p1" "call_core k call p1 = (r, p')"
    using assms(2) by (auto simp: call_singleton_def)
  show ?thesis by (rule good_chain [OF force_good [OF assms(1) p1(1)] call_core_good [OF _ p1(2)]])
qed

lemma mmtk_init_good:
  assumes ok: "process_ok k s0 p" and "mmtk_init c k lo hi p = Ok p'"
  shows "good_step k s0 p p'"
proof -
  obtain options where run: "force_singleton c k (p\<lparr>builder := options\<rparr>) = Ok p'"
    using assms(2) by (auto simp: mmtk_init_def Let_def split: prod.splits)
  have "good_step k s0 p (p\<lparr>builder := options\<rparr>)" by (rule good_step_fields [OF ok]) simp_all
  then show ?thesis by (rule good_chain) (rule force_good [OF _ run])
qed

lemma init_binding_good:
  assumes ok: "process_ok k s0 p" and "mmtk_init_binding c k calls p = Ok p'"
  shows "good_step k s0 p p'"
proof -
  obtain p1 where p1: "force_singleton c k p = Ok p1" "binding_cell p1 = None"
    "p' = p1\<lparr>binding_cell := Some (binding_new calls)\<rparr>"
    using assms(2) by (auto simp: mmtk_init_binding_def split: option.splits)
  have "singleton_built p1" using force_singleton_good [OF ok p1(1)] by simp
  then show ?thesis
    by (intro good_chain [OF force_good [OF ok p1(1)]] good_step_fields) (simp_all add: p1(2,3))
qed

lemma bind_good:
  assumes ok: "process_ok k s0 p" and "mmtk_bind_mutator c k tls p = Ok (h, p')"
  shows "good_step k s0 p p'"
proof -
  obtain p1 p2 where p1: "force_singleton c k p = Ok p1" "call_core k (Bind_mutator tls) p1 = (h, p2)"
    "p' = p2\<lparr>live_mutators := insert h (live_mutators p2)\<rparr>"
    using assms(2) by (auto simp: mmtk_bind_mutator_def call_singleton_def)
  have "singleton_built p1" using force_singleton_good [OF ok p1(1)] by simp
  then have "singleton_built p2" using p1(2) by (auto simp: call_core_def split: prod.splits)
  then have "process_ok k s0 p2 \<Longrightarrow> good_step k s0 p2 p'" by (intro good_step_fields) (simp_all add: p1(3))
  then show ?thesis
    by (intro good_chain [OF good_chain [OF force_good [OF ok p1(1)] call_core_good [OF _ p1(2)]]])
qed

lemma destroy_good:
  assumes ok: "process_ok k s0 p" and "mmtk_destroy_mutator k h p = Ok p'"
  shows "good_step k s0 p p'"
proof -
  obtain r p1 where p1: "call_core k (Destroy_mutator h) p = (r, p1)"
    "p' = p1\<lparr>live_mutators := live_mutators p1 - {h}\<rparr>"
    using assms(2) by (auto simp: mmtk_destroy_mutator_def split: prod.splits)
  have "process_ok k s0 p1 \<Longrightarrow> good_step k s0 p1 p'" by (intro good_step_fields) (auto simp: p1(2))
  with call_core_good [OF ok p1(1)] show ?thesis by (rule good_chain)
qed

lemma post_alloc_good:
  assumes ok: "process_ok k s0 p" and "mmtk_post_alloc c k h a bytes sem p = Ok p'"
  shows "good_step k s0 p p'"
proof -
  obtain p1 call where p1: "force_singleton c k p = Ok p1" "p' = snd (call_core k call p1)"
    using assms(2) by (auto simp: mmtk_post_alloc_def Let_def)
  obtain r where "call_core k call p1 = (r, p')" using p1(2) by (metis prod.collapse)
  from good_chain [OF force_good [OF ok p1(1)] call_core_good [OF _ this]] show ?thesis .
qed

lemma plain_call_good:
  assumes ok: "process_ok k s0 p"
  shows "mmtk_process k m name val p = Ok (b, p') \<Longrightarrow> good_step k s0 p p'"
    and "mmtk_flush_mutator k h p = Ok p' \<Longrightarrow> good_step k s0 p p'"
    and "mmtk_alloc k h bytes align offset sem p = Ok (r, p') \<Longrightarrow> good_step k s0 p p'"
    and "get_max_non_los_default_alloc_bytes c k p = Ok (r, p') \<Longrightarrow> good_step k s0 p p'"
proof -
  assume "mmtk_process k m name val p = Ok (b, p')"
  then obtain options where "p' = p\<lparr>builder := options\<rparr>" by (auto simp: mmtk_process_def split: prod.splits)
  then show "good_step k s0 p p'" by (intro good_step_fields [OF ok]) simp_all
next
  assume "mmtk_flush_mutator k h p = Ok p'"
  then obtain r where "call_core k (Flush_mutator h) p = (r, p')"
    unfolding mmtk_flush_mutator_def by (metis bindR_OkE prod.collapse sum.inject(2))
  then show "good_step k s0 p p'" by (rule call_core_good [OF ok])
next
  assume "mmtk_alloc k h bytes align offset sem p = Ok (r, p')"
  then have "call_core k (Alloc h bytes align offset sem) p = (r, p')" by (auto simp: mmtk_alloc_def)
  then show "good_step k s0 p p'" by (rule call_core_good [OF ok])
next
  assume "get_max_non_los_default_alloc_bytes c k p = Ok (r, p')"
  then have "force_singleton c k p = Ok p'" by (auto simp: get_max_non_los_default_alloc_bytes_def)
  then show "good_step k s0 p p'" by (rule force_good [OF ok])
qed

lemmas calls_good = mmtk_init_good init_binding_good bind_good destroy_good post_alloc_good plain_call_good
  call_singleton_good call_core_good

lemma api_step_good: "api_step c k p p' \<Longrightarrow> process_ok k s0 p \<Longrightarrow> good_step k s0 p p'"
  by (erule api_stepE) (erule (1) calls_good [rotated])+


section \<open>Runs\<close>

lemma api_step_ok: "api_step c k p p' \<Longrightarrow> process_ok k s0 p \<Longrightarrow> process_ok k s0 p'"
  using api_step_good [of c k p p' s0] by (simp add: good_step_def)

interpretation calls: inductive_invariant "start_process k s0" "api_step c k" "process_ok k s0" for c k s0
  by unfold_locales (rule start_ok, rule api_step_ok)

lemma run_advances: "(api_step c k)\<^sup>*\<^sup>* p p' \<Longrightarrow> process_ok k s0 p \<Longrightarrow> advances k p p'"
proof (induction rule: rtranclp_induct)
  case base
  then show ?case by (simp add: advances_refl)
next
  case (step p1 p2)
  have "process_ok k s0 p1" using calls.inv_steps [OF step.hyps(1) step.prems] .
  from api_step_good [OF step.hyps(2) this] have "advances k p1 p2" by (simp add: good_step_def)
  with step.IH [OF step.prems] show ?case by (rule advances_trans)
qed

text \<open>
  C19. In every run of C calls mmtk-core is built exactly once: its state is what one
  initialisation made of it, moved on by calls of its own functions only, and the binding is
  set once. Whichever call used \<open>SINGLETON\<close> first decides the options: \<open>mmtk_init\<close> afterwards
  panics in a debug build and changes nothing of mmtk-core in a release build.
\<close>

theorem core_built_once:
  assumes "(api_step c k)\<^sup>*\<^sup>* (start_process k s0) p" "singleton_built p" "(api_step c k)\<^sup>*\<^sup>* p p'"
  shows "(\<exists>options s. (core_moves k)\<^sup>*\<^sup>* s0 s \<and> (core_moves k)\<^sup>*\<^sup>* (core_init k options s) (core p)) \<and>
    singleton_built p' \<and> (core_moves k)\<^sup>*\<^sup>* (core p) (core p') \<and>
    (binding_cell p \<noteq> None \<longrightarrow> binding_cell p' = binding_cell p) \<and>
    (if dbg c then mmtk_init c k lo hi p' = Err Assert_failed
     else \<exists>p2. mmtk_init c k lo hi p' = Ok p2 \<and> core p2 = core p')"
proof -
  have p: "process_ok k s0 p" by (rule calls.inv_reached [OF assms(1)])
  have p': "process_ok k s0 p'" by (rule calls.inv_steps [OF assms(3) p])
  have later: "singleton_built p'" "(core_moves k)\<^sup>*\<^sup>* (core p) (core p')"
    "binding_cell p \<noteq> None \<longrightarrow> binding_cell p' = binding_cell p"
    using run_advances [OF assms(3) p] assms(2) by (simp_all add: advances_def)
  have "mmtk_initialized p'" using p' later(1) by (simp add: process_ok_def)
  from late_init_has_no_effect [OF later(1) this, of c k lo hi] later p assms(2) show ?thesis
    by (auto simp: process_ok_def core_history_def)
qed

text \<open>Binding a mutator before \<open>mmtk_init\<close> builds mmtk-core with the default options.\<close>

theorem core_built_once_witness:
  "\<exists>h p. mmtk_bind_mutator sample_cfg sample_api 5 (start_process sample_api None) = Ok (h, p) \<and>
    mmtk_init sample_cfg sample_api 100 200 p = Err Assert_failed"
proof -
  obtain h p where b: "mmtk_bind_mutator sample_cfg sample_api 5 (start_process sample_api None) = Ok (h, p)"
    "singleton_built p"
    by (auto simp: mmtk_bind_mutator_def call_singleton_def force_singleton_def start_process_def call_core_def
        sample_api_def)
  have "(api_step sample_cfg sample_api)\<^sup>*\<^sup>* (start_process sample_api None) p"
    by (rule r_into_rtranclp) (rule api_bind [OF b(1)])
  from core_built_once [OF this b(2) rtranclp.rtrancl_refl, of 100 200] b(1) show ?thesis by auto
qed

end
