(* ===== verification/Spec2Isabelle.thy ===== *)
theory Spec2Isabelle
  imports Scan_Pins Mutator_Service Tracing Scan_Equivalence Display_Props
    Reference_Glue Lazy_Statics Options Api_Runs
begin

text \<open>
  The Scala Native binding of MMTk (\<open>src/mmtk/src\<close>): the glue between the Scala Native
  runtime, which owns threads, stacks and the layout of objects, and mmtk-core, which
  owns the heap and drives collections. mmtk-core calls the binding to stop the mutators,
  to find roots, to find the edges of an object and to copy an object; the binding calls
  mmtk-core through its memory manager and the runtime through the table \<open>UPCALLS\<close>.

  \<^bold>\<open>What is code and what is a parameter.\<close> mmtk-core and the runtime are not in this
  repository. Their functions are fields of records which the definitions take as
  arguments: \<open>upcalls\<close> (the runtime's table, \<open>lib.rs\<close> 196-248, with the build's features
  and profile in \<open>build\<close>), \<open>mmtk\<close> (what scanning and copying use of mmtk-core) and \<open>core_api\<close>
  (what the C entry points use). What a theorem relies on is a hypothesis of that
  theorem (\<open>visitor_ok\<close>, \<open>tracer_ok\<close>, \<open>pin_ok\<close>, \<open>pins_objects\<close>, \<open>pin_neutral\<close>, \<open>tracer_marks\<close>),
  and its witness has a concrete instance. None of them fixes the set of objects while edges are traced:
  an evacuating tracer creates objects.

  \<^bold>\<open>Effects.\<close> Memory is a partial map from 64-bit addresses to bytes: an unmapped access is
  the error \<open>Segv\<close>. Panics, failed debug assertions, overflow checks (in a debug build),
  uses of freed buffers and the exhausted call stack are values of \<open>err\<close>; a step returns
  \<open>err + 'a\<close>. Machine words keep their width. Threads that run concurrently (the
  synchronizer and the GC threads) are a step relation, and so are the runtime's calls of
  the C interface; all other globals are under a mutex held for one operation, and are
  fields of the state.

  \<^bold>\<open>The theories\<close>, in the order of their imports:

  \<^item> \<open>Prelude\<close>: results, binds and folds over them, checked arithmetic of \<open>usize\<close>, pointer
  offsets; the collections \<open>res_simps\<close> and \<open>arith_simps\<close>; the locales \<open>source\<close> (what hands out
  its items one by one: the mutator iterator, the stack of weak references) and
  \<open>inductive_invariant\<close>, \<open>stable_property\<close>, \<open>refinement_mapping\<close> (step relations); the
  calculus \<open>refines\<close> of deterministic steps under an abstraction, collection \<open>refine\<close>.
  \<^item> \<open>Memory\<close>: loads and stores of bytes and words, \<open>copy_nonoverlapping\<close>; the locale
  \<open>word_store\<close> with the laws of loads after stores, interpreted on the byte store.
  \<^item> \<open>Config\<close>: features, the upcall table and the functions of mmtk-core.
  \<^item> \<open>Layout\<close>: the \<open>repr(C)\<close> layout of every structure of \<open>abi.rs\<close>, computed from the field
  lists, for both settings of \<open>uses_lockword\<close>. Fields are aligned, lie inside their structure and
  apart, so that a write to one leaves the others alone.
  \<^item> \<open>Pointers\<close>: the address predicates of \<open>scanning.rs\<close> 58-63 and 184-202.
  \<^item> \<open>Lazy_Statics\<close>: the \<open>lazy_static\<close> constants that cache an answer of the runtime. Each is a
  cell (locale \<open>static_cell\<close>) filled at its first use. The other theories read these constants
  from the table of upcalls; \<open>first_table_decides\<close> says that this is the same as long as one
  table is in force, and that otherwise the first table wins, from any state of the cells.
  \<^item> \<open>Abi\<close>: the methods of \<open>Object\<close>, \<open>ArrayHeader\<close> and \<open>GCThreadTLS\<close>, the lock word masks.
  Its lemmas give sizes and element bounds, the size during evacuation, and round trips.
  \<^item> \<open>Object_Model\<close>: \<open>object_model.rs\<close>. Evacuation copies the bytes of the object, nothing
  else, and the copy has the same size.
  \<^item> \<open>Roots_Buffer\<close>: \<open>RootsClosure\<close> and the two closures that renew a buffer. The allocations
  are explicit, so that an overflow, a use after free or a leak would be visible; the
  locale \<open>nodes_sink\<close> is the contract between a closure and the buffers it consumes and is
  interpreted for nodes and for edges.
  \<^item> \<open>Vm\<close>: the state which the scanning code shares.
  \<^item> \<open>Scanning\<close>: root scanning, function by function. \<open>Scanning_Spec\<close> has the list of roots
  as a function of the memory and the refinement lemmas, over the locale \<open>root_marker\<close> that
  says what following a reference reports; \<open>Root_Scans\<close> the theorems on threads, modules and
  whole scans.
  \<^item> \<open>Object_Scanning\<close>: the edges of objects and arrays, visited or traced. \<open>Object_Scan_Props\<close>:
  what visiting does, also on a reference map that does not end well, and the lock words.
  \<open>Slot_Handlers\<close> has the iteration over slots once, for every handler of a slot that keeps
  the headers (locale \<open>slot_handler\<close>). \<open>Scan_Equivalence\<close>: tracing with a tracer that moves
  nothing has the outcome of visiting.
  \<^item> \<open>Evacuation\<close>: what a reader of the copy finds after \<open>copy_object\<close>, for the theorem below.
  \<^item> \<open>Tracing\<close>: tracing the edges of objects and arrays with a tracer that may move each object
  at its first trace; the tracer of its examples evacuates by the binding's own \<open>copy\<close>.
  \<^item> \<open>Display\<close>, \<open>Display_Props\<close>: the text that the \<open>Display\<close> implementations of
  \<open>object_scanning.rs\<close> write.
  \<^item> \<open>Weak_Refs\<close>, \<open>Pinning\<close>: the stack of weak references, its handlers, pinned objects.
  \<open>Pinned_Scans\<close>: a build with \<open>object_pinning\<close> scans as one without, by the calculus of
  \<open>Prelude\<close>. \<open>Scan_Pins\<close>: which objects are pinned when a scan ends. \<open>Gc_Cycle\<close>: the whole scan
  and the weak reference processing after it, in both builds.
  \<^item> \<open>Collection\<close>, \<open>Collection_Props\<close>: \<open>collection.rs\<close>, the request and answer channels, the
  synchronizer threads of \<open>scalanative_gc_init\<close> and the registration of GC threads, in one
  step relation (what a GC thread does before it enters mmtk-core are steps of it). The four
  effects of \<open>scalanative_gc_init\<close> are steps of their own, which other threads may interleave.
  \<open>Mutator_Service\<close>: an abstract service of stopping and resuming, without channels and
  threads, and the proof that every interleaving refines it.
  \<^item> \<open>Active_Plan\<close>: \<open>active_plan.rs\<close> and \<open>MutatorClosure\<close>.
  \<^item> \<open>Api\<close>: the C entry points of \<open>api.rs\<close>, initialisation and the singletons of \<open>lib.rs\<close>.
  \<open>Api_Runs\<close>: calls of the C interface in any order, as a step relation.
  \<^item> \<open>Options\<close>: the strings that \<open>mmtk_process\<close> receives. Its check of UTF-8 accepts the encodings of
  sequences of Unicode scalar values and nothing else.
  \<^item> \<open>Reference_Glue\<close>: \<open>reference_glue.rs\<close>, which panics.

  \<^bold>\<open>Bounds and loops.\<close> Marking recurses over monitors with no visited check; the model has the
  depth of the call stack as an argument and returns \<open>Stack_overflow\<close> when it is used up.
  \<open>marking_ends\<close> says which depth is enough, and \<open>monitor_cycle_overflows\<close> that none is for
  a cycle. Loops over addresses (\<open>mmtk_mark_range\<close>, reference maps) end because the address
  grows, and are proved to; the walk along the runtime's thread list may not end, so it
  is a partial function whose value \<open>None\<close> means that it does not return.

  \<^bold>\<open>Where the code does not do what it seems to mean.\<close> Several theorems state such behaviour as
  it is: \<open>monitor_goes_to_type\<close>, \<open>scan_reads_past_registers\<close>, \<open>nullify_clears_nothing\<close>,
  \<open>weak_stack_only_grows\<close>, \<open>stop_returns_before_mutators_stop\<close>,
  \<open>second_init_kills_synchronizer\<close>, \<open>api_visit_edge_drops_edges\<close>, \<open>monitor_cycle_overflows\<close>,
  \<open>display_array_reads_words\<close>, \<open>core_built_once\<close>.

  \<^bold>\<open>Not modelled.\<close> The constants that \<open>lib.rs\<close> 82-101 re-exports are values of mmtk-core:
  fields of \<open>core_constants\<close> in \<open>Api\<close>. The metadata specifications of \<open>object_model.rs\<close> 14-28
  are data that mmtk-core interprets and appear as such. The memory slice type of \<open>edges.rs\<close>
  is a type of mmtk-core without operations that the binding uses: a type parameter. Logging and panic
  messages are dropped (a panic is its error). The unit tests are not modelled. Data races on memory which the runtime writes
  during a scan are out of scope: the code relies on stopped mutators. Two calls of
  \<open>scalanative_gc_init\<close> do not overlap, and a synchronizer registers and makes its first upcall in one step.
  A buffer has exactly the capacity asked for (\<open>Vec::with_capacity\<close> promises at least that). A panic ends
  what is modelled of the thread; that it poisons the mutexes it holds is not. The set of live mutators in
  \<open>Api\<close> is no variable of the code: it stands for the validity of the raw pointers that the runtime
  passes back, so that a use after \<open>mmtk_destroy_mutator\<close> is an error. Memory that the reference map of an
  object would have to leave the address space for is \<open>Ptr_overflow\<close>, undefined behaviour in Rust.
\<close>

section \<open>Copying and scanning\<close>

text \<open>
  C9. An evacuated object is scanned like the original: copied while its header carried
  forwarding bits, the copy has the edges of the original, each displaced by the
  distance of the move, with the same contents and in the same order.
\<close>

theorem evacuated_object_scans_alike:
  assumes "evacuation c k mm m0 from rtti n bits m dst sem t t1"
    and "copy_object c mm from sem (m, t) = Ok (obj, m3, t3)"
    and "plain_view c m0 from weak p (from + of_nat (size_of (Object c))) offs"
    and "fields_inside c n offs" "unat dst + unat n < 2 ^ 64"
    and "apart dst (unat n) p (8 * (length offs + 1))" "apart from 8 p (8 * (length offs + 1))"
    and "slots = ref_slots c weak (from + of_nat (size_of (Object c))) offs"
    and "memory vm = m3" "slots_ok c mm m3 (core_state vm) (map (\<lambda>a. a + (dst - from)) slots)" "visitor_ok mm"
  shows "scan_object c mm obj vm = Ok (visit_all c mm
    (map (\<lambda>(a, w). (a + (dst - from), w)) (live_edges mm m0 (core_state vm) slots)) vm)"
  by (rule evacuated_scan [OF assms])

theorem evacuated_object_scans_alike_witness:
  "\<exists>m3 t3. copy_object sample_cfg clearing_mmtk 0x10000 0 (evac_tagged, sample_core [0x10040]) = Ok (0x18000, m3, t3) \<and>
    scan_object sample_cfg clearing_mmtk 0x18000 (init_vm m3 (sample_core [0x10040])) =
      Ok (visit_all sample_cfg clearing_mmtk [(0x18018, 0x10040)] (init_vm m3 (sample_core [0x10040])))"
proof -
  obtain m3 t3 where run:
    "copy_object sample_cfg clearing_mmtk 0x10000 0 (evac_tagged, sample_core [0x10040]) = Ok (0x18000, m3, t3)"
    using evac_run by blast
  have slots: "ref_slots sample_cfg False 0x10010 [1] = [0x10018]" by (simp add: ref_slots_def)
  have live: "live_ref clearing_mmtk (sample_core [0x10040]) w \<longleftrightarrow> w = 0x10040" for w
    by (auto simp: live_ref_def is_word_in_heap_def clearing_mmtk_def sample_mmtk_def sample_core_def)
  have "load64 (word_mem evac_words) 0x10018 = Ok 0x10040"
    by (simp add: evac_words_def aligned8_def rtti_words_def obj_words_def)
  moreover have "load64 m3 0x18018 = load64 (word_mem evac_words) 0x10018"
    using evacuation_words(3) [OF evac_evacuation run, of 24] by simp
  moreover have "visitor_ok clearing_mmtk" by (simp add: visitor_ok_def clearing_mmtk_def sample_mmtk_def)
  ultimately have "scan_object sample_cfg clearing_mmtk 0x18000 (init_vm m3 (sample_core [0x10040])) =
      Ok (visit_all sample_cfg clearing_mmtk (map (\<lambda>(a, w). (a + (0x18000 - 0x10000), w))
        (live_edges clearing_mmtk (word_mem evac_words) (sample_core [0x10040]) [0x10018]))
        (init_vm m3 (sample_core [0x10040])))"
    using evacuated_object_scans_alike [OF evac_evacuation run, of False "0x2000" "[1]" "[0x10018]"
        "init_vm m3 (sample_core [0x10040])"] evac_view evac_target [OF run]
    by (auto simp: fields_inside_def apart_def slots_ok_def slots live)
  then show ?thesis
    using run \<open>load64 (word_mem evac_words) 0x10018 = Ok 0x10040\<close> by (simp add: live)
qed

end
